theory Spec2Isabelle
  imports Complex_Main "HOL-Library.AList"
begin

section \<open>Data model\<close>

text \<open>
  Timestamps are the ISO strings produced by \<^verbatim>\<open>new Date().toISOString()\<close>. The clock is
  not part of the model: every operation that reads it takes the string it would read as
  the argument \<open>now\<close>. A JavaScript \<^verbatim>\<open>null\<close> date is \<open>None\<close>.
\<close>

type_synonym timestamp = string

text \<open>
  \<^verbatim>\<open>models/Task.js\<close>, the fields set by the constructor. The selectors \<open>task_id\<close>,
  \<open>task_completed\<close>, \<open>task_completedDate\<close> and \<open>task_notes\<close> stand for the JavaScript
  fields \<^verbatim>\<open>id\<close>, \<^verbatim>\<open>completed\<close>, \<^verbatim>\<open>completedDate\<close> and \<^verbatim>\<open>notes\<close> of a task.
\<close>

record task =
  task_id :: string
  phase :: string
  title :: string
  description :: string
  task_completed :: bool
  task_completedDate :: "timestamp option"
  task_notes :: string
  evidenceFiles :: "string list"

text \<open>One entry of \<^verbatim>\<open>Project.phases\<close>: \<^verbatim>\<open>{ completed, completedDate }\<close>.\<close>

record phase_status =
  completed :: bool
  completedDate :: "timestamp option"

text \<open>
  \<^verbatim>\<open>models/Project.js\<close>. \<^verbatim>\<open>phases\<close> is a plain object, that is an open mapping from
  property names to phase records; it is kept as the list of its own properties in
  enumeration order. \<^verbatim>\<open>overallStatus\<close> is a string in the source and stays one.
\<close>

record project =
  project_id :: string
  name :: string
  createdDate :: timestamp
  phases :: "(string \<times> phase_status) list"
  overallStatus :: string

datatype js_error = Error string

definition phase_names :: "string list" where
  "phase_names = [''planning'', ''design'', ''implementation'', ''testing'', ''deployment'']"

section \<open>Task\<close>

text \<open>The constructor; the fresh uuid is the argument \<open>uuid\<close>.\<close>

definition new_Task :: "string \<Rightarrow> string \<Rightarrow> string \<Rightarrow> string \<Rightarrow> task" where
  "new_Task uuid ph ttl descr =
     \<lparr> task_id = uuid, phase = ph, title = ttl, description = descr,
       task_completed = False, task_completedDate = None, task_notes = [], evidenceFiles = [] \<rparr>"

text \<open>
  \<^verbatim>\<open>Task.getDefaultTasks()\<close>: ten fresh tasks, two for each phase. The constructor calls
  \<^verbatim>\<open>uuidv4()\<close> once for each task; \<open>uuid k\<close> is the result of the \<open>k\<close>-th call.
\<close>

definition getDefaultTasks :: "(nat \<Rightarrow> string) \<Rightarrow> (string \<times> task list) list" where
  "getDefaultTasks uuid =
     [(''planning'',
         [new_Task (uuid 0) ''planning'' ''Threat Modeling''
            ''Conduct threat modeling exercise to identify potential security risks'',
          new_Task (uuid 1) ''planning'' ''Security Requirements Gathering''
            ''Define security requirements and acceptance criteria'']),
      (''design'',
         [new_Task (uuid 2) ''design'' ''Security Architecture Review''
            ''Review system architecture for security considerations'',
          new_Task (uuid 3) ''design'' ''Data Flow Analysis''
            ''Analyze data flows and identify sensitive data handling'']),
      (''implementation'',
         [new_Task (uuid 4) ''implementation'' ''Secure Coding Review''
            ''Review code for secure coding practices'',
          new_Task (uuid 5) ''implementation'' ''Dependency Scanning''
            ''Scan dependencies for known vulnerabilities'']),
      (''testing'',
         [new_Task (uuid 6) ''testing'' ''Security Testing''
            ''Perform security-focused testing scenarios'',
          new_Task (uuid 7) ''testing'' ''Penetration Testing''
            ''Conduct penetration testing on the application'']),
      (''deployment'',
         [new_Task (uuid 8) ''deployment'' ''Security Configuration Review''
            ''Review deployment configuration for security'',
          new_Task (uuid 9) ''deployment'' ''Access Control Setup''
            ''Configure proper access controls and permissions''])]"

text \<open>
  \<^verbatim>\<open>complete(notes = '')\<close>: the default value of the parameter is used when the argument is
  missing (\<^verbatim>\<open>undefined\<close>), which is \<open>None\<close> here.
\<close>

definition complete :: "task \<Rightarrow> string option \<Rightarrow> timestamp \<Rightarrow> task" where
  "complete t notes_arg now =
     t\<lparr> task_completed := True,
        task_completedDate := Some now,
        task_notes := (case notes_arg of None \<Rightarrow> [] | Some n \<Rightarrow> n) \<rparr>"

text \<open>\<^verbatim>\<open>addEvidence(filename)\<close>: push unless \<^verbatim>\<open>includes\<close> finds the name.\<close>

definition addEvidence :: "task \<Rightarrow> string \<Rightarrow> task" where
  "addEvidence t filename =
     (if \<not> List.member (evidenceFiles t) filename
      then t\<lparr> evidenceFiles := evidenceFiles t @ [filename] \<rparr>
      else t)"

text \<open>
  The evidence route of \<^verbatim>\<open>server.js\<close> (lines 307--315) runs the same test and push for each
  uploaded file, in upload order, on the relative path of the file.
\<close>

fun add_uploaded_files :: "task \<Rightarrow> string list \<Rightarrow> task" where
  "add_uploaded_files t [] = t"
| "add_uploaded_files t (relativePath # files) =
     add_uploaded_files
       (if \<not> List.member (evidenceFiles t) relativePath
        then t\<lparr> evidenceFiles := evidenceFiles t @ [relativePath] \<rparr>
        else t) files"

text \<open>
  The task update of the PUT route (\<^verbatim>\<open>server.js\<close> lines 233--242, the serverless handler
  lines 193--200). \<^verbatim>\<open>completed\<close> and \<^verbatim>\<open>notes\<close> have passed the route's type checks: each
  is absent (\<open>None\<close>) or a boolean, respectively a string, and \<^verbatim>\<open>notes || ''\<close> of a string
  is the string.
\<close>

definition update_task_fields :: "task \<Rightarrow> bool option \<Rightarrow> string option \<Rightarrow> timestamp \<Rightarrow> task" where
  "update_task_fields t completed_arg notes_arg now =
     (let t1 = (case completed_arg of
                  Some c \<Rightarrow> t\<lparr> task_completed := c,
                                task_completedDate := (if c then Some now else None) \<rparr>
                | None \<Rightarrow> t)
      in (case notes_arg of Some n \<Rightarrow> t1\<lparr> task_notes := n \<rparr> | None \<Rightarrow> t1))"

section \<open>Project\<close>

definition new_phase :: phase_status where
  "new_phase = \<lparr> completed = False, completedDate = None \<rparr>"

definition new_Project :: "string \<Rightarrow> string \<Rightarrow> timestamp \<Rightarrow> project" where
  "new_Project uuid nm now =
     \<lparr> project_id = uuid, name = nm, createdDate = now,
       phases = [(''planning'', new_phase), (''design'', new_phase),
                 (''implementation'', new_phase), (''testing'', new_phase),
                 (''deployment'', new_phase)],
       overallStatus = ''In Progress'' \<rparr>"

text \<open>
  Reading \<^verbatim>\<open>this.phases[phase]\<close> follows the prototype chain. \<^verbatim>\<open>phases\<close> is an object
  literal (or the result of \<^verbatim>\<open>JSON.parse\<close>), so a name that is not an own property is
  looked up in \<^verbatim>\<open>Object.prototype\<close>, whose members are listed here; each of them is a
  function or an object, hence truthy.
\<close>

definition object_prototype_names :: "string list" where
  "object_prototype_names =
     [''constructor'', ''__defineGetter__'', ''__defineSetter__'', ''hasOwnProperty'',
      ''__lookupGetter__'', ''__lookupSetter__'', ''isPrototypeOf'',
      ''propertyIsEnumerable'', ''toString'', ''valueOf'', ''__proto__'',
      ''toLocaleString'']"

datatype 'a property = Own 'a | Inherited | Missing

definition get_property :: "(string \<times> 'a) list \<Rightarrow> string \<Rightarrow> 'a property" where
  "get_property obj key =
     (case map_of obj key of
        Some v \<Rightarrow> Own v
      | None \<Rightarrow> if List.member object_prototype_names key then Inherited else Missing)"

text \<open>\<^verbatim>\<open>Object.values(this.phases).every(p => p.completed)\<close>, then the status string.\<close>

definition allPhasesCompleted :: "(string \<times> phase_status) list \<Rightarrow> bool" where
  "allPhasesCompleted phs = list_all (\<lambda>p. completed p) (map snd phs)"

definition recompute_overallStatus :: "project \<Rightarrow> project" where
  "recompute_overallStatus p =
     p\<lparr> overallStatus := (if allPhasesCompleted (phases p) then ''Completed'' else ''In Progress'') \<rparr>"

text \<open>
  \<^verbatim>\<open>updatePhaseStatus(phase, completed)\<close>. The guard throws when \<^verbatim>\<open>this.phases[phase]\<close> is
  falsy. An own entry is a phase record (truthy) and is overwritten in place. For a name
  found on the prototype the two assignments write to the shared prototype member, not
  to the project, and the method goes on to recompute the status.
\<close>

definition updatePhaseStatus :: "project \<Rightarrow> string \<Rightarrow> bool \<Rightarrow> timestamp \<Rightarrow> js_error + project" where
  "updatePhaseStatus p ph c now =
     (case get_property (phases p) ph of
        Missing \<Rightarrow> Inl (Error (''Invalid phase: '' @ ph))
      | Inherited \<Rightarrow> Inr (recompute_overallStatus p)
      | Own _ \<Rightarrow>
          Inr (recompute_overallStatus
                 (p\<lparr> phases := AList.update ph
                        \<lparr> completed = c, completedDate = (if c then Some now else None) \<rparr>
                        (phases p) \<rparr>)))"

section \<open>The task update route\<close>

text \<open>
  \<^verbatim>\<open>PUT /api/projects/:id/tasks/:taskId\<close> of \<^verbatim>\<open>server.js\<close>. The task mapping of a project is
  an object from phase names to arrays of tasks, kept as the list of its properties in
  the order \<^verbatim>\<open>for (const phase in allTasks)\<close> visits them.
\<close>

type_synonym task_mapping = "(string \<times> task list) list"

text \<open>\<^verbatim>\<open>Array.prototype.findIndex\<close>, with \<open>None\<close> for \<^verbatim>\<open>-1\<close>.\<close>

fun findIndex :: "('a \<Rightarrow> bool) \<Rightarrow> 'a list \<Rightarrow> nat option" where
  "findIndex P [] = None"
| "findIndex P (x # xs) = (if P x then Some 0 else map_option Suc (findIndex P xs))"

text \<open>
  The loop of lines 227--254. The first phase whose array holds a task with the id is
  the one updated; the loop then leaves with \<^verbatim>\<open>break\<close>. The result is the task mapping and
  the project as the loop leaves them and \<^verbatim>\<open>updatedTask\<close> (\<open>None\<close> while \<^verbatim>\<open>taskFound\<close> is
  false). \<open>now_task\<close> and \<open>now_phase\<close> are the two readings of the clock, the first in the
  route and the second inside \<^verbatim>\<open>updatePhaseStatus\<close>. An exception of
  \<^verbatim>\<open>updatePhaseStatus\<close> leaves the loop as \<open>Inl\<close>.
\<close>

fun update_loop ::
  "task_mapping \<Rightarrow> string \<Rightarrow> bool option \<Rightarrow> string option \<Rightarrow> timestamp \<Rightarrow> timestamp \<Rightarrow> project
     \<Rightarrow> js_error + (task_mapping \<times> project \<times> task option)" where
  "update_loop [] taskId completed_arg notes_arg now_task now_phase p = Inr ([], p, None)"
| "update_loop ((ph, phaseTasks) # rest) taskId completed_arg notes_arg now_task now_phase p =
     (case findIndex (\<lambda>t. task_id t = taskId) phaseTasks of
        Some phaseTaskIndex \<Rightarrow>
          (let updatedTask = update_task_fields (phaseTasks ! phaseTaskIndex)
                               completed_arg notes_arg now_task;
               phaseTasks' = phaseTasks[phaseTaskIndex := updatedTask];
               allPhaseTasksCompleted = list_all task_completed phaseTasks'
           in (case updatePhaseStatus p ph allPhaseTasksCompleted now_phase of
                 Inl e \<Rightarrow> Inl e
               | Inr p' \<Rightarrow> Inr ((ph, phaseTasks') # rest, p', Some updatedTask)))
      | None \<Rightarrow>
          (case update_loop rest taskId completed_arg notes_arg now_task now_phase p of
             Inl e \<Rightarrow> Inl e
           | Inr (rest', p', updatedTask) \<Rightarrow> Inr ((ph, phaseTasks) # rest', p', updatedTask)))"

text \<open>
  The request body is a JSON object, of which the route reads \<^verbatim>\<open>completed\<close> and \<^verbatim>\<open>notes\<close>.
  A field as the route sees it: missing, a boolean, a string, or a JSON value of another
  type.
\<close>

datatype body_field = Absent | JBool bool | JString string | JOther

definition is_boolean :: "body_field \<Rightarrow> bool" where
  "is_boolean f = (case f of JBool _ \<Rightarrow> True | _ \<Rightarrow> False)"

definition is_string :: "body_field \<Rightarrow> bool" where
  "is_string f = (case f of JString _ \<Rightarrow> True | _ \<Rightarrow> False)"

text \<open>
  \<^verbatim>\<open>!s || s.trim().length === 0\<close> for a string \<open>s\<close>. The characters of the model are
  bytes, so the white space is that of ASCII.
\<close>

definition is_space :: "char \<Rightarrow> bool" where
  "is_space ch = List.member [CHR '' '', CHR 0x09, CHR 0x0A, CHR 0x0B, CHR 0x0C, CHR 0x0D] ch"

definition blank :: "string \<Rightarrow> bool" where
  "blank s = list_all is_space s"

text \<open>
  The route. \<open>projectData\<close> is what \<^verbatim>\<open>Storage.getProjectById\<close> returned and \<open>allTasks\<close> what
  \<^verbatim>\<open>Storage.getTasksForProject\<close> returned. \<^verbatim>\<open>Object.assign(new Project(), projectData)\<close>
  overwrites every field of the fresh project with the stored one, so the project
  worked on is \<open>projectData\<close>. A failure is the status code and the error message. On
  success the result is the task of the response body together with the project and the
  task mapping handed to \<^verbatim>\<open>Storage.saveProject\<close> and \<^verbatim>\<open>Storage.saveTasksForProject\<close>;
  whether the two writes succeed is outside the model.
\<close>

definition put_task ::
  "string \<Rightarrow> string \<Rightarrow> body_field \<Rightarrow> body_field \<Rightarrow> project option \<Rightarrow> task_mapping
     \<Rightarrow> timestamp \<Rightarrow> timestamp \<Rightarrow> (nat \<times> string) + (task \<times> project \<times> task_mapping)" where
  "put_task projectId taskId completed_field notes_field projectData allTasks now_task now_phase =
     (if blank projectId then Inl (400, ''Invalid project ID'')
      else if blank taskId then Inl (400, ''Invalid task ID'')
      else if completed_field \<noteq> Absent \<and> \<not> is_boolean completed_field
        then Inl (400, ''Completed field must be a boolean value'')
      else if notes_field \<noteq> Absent \<and> \<not> is_string notes_field
        then Inl (400, ''Notes field must be a string'')
      else
        (case projectData of
           None \<Rightarrow> Inl (404, ''Project not found'')
         | Some p \<Rightarrow>
             (case update_loop allTasks taskId
                     (case completed_field of JBool b \<Rightarrow> Some b | _ \<Rightarrow> None)
                     (case notes_field of JString n \<Rightarrow> Some n | _ \<Rightarrow> None)
                     now_task now_phase p of
                Inl e \<Rightarrow> Inl (500, ''Failed to update task'')
              | Inr (allTasks', p', None) \<Rightarrow> Inl (404, ''Task not found'')
              | Inr (allTasks', p', Some updatedTask) \<Rightarrow> Inr (updatedTask, p', allTasks'))))"

section \<open>The report\<close>

subsection \<open>JavaScript numbers\<close>

text \<open>
  The numbers of the report are IEEE 754 doubles. The counts are integers far below
  \<open>2\<^sup>5\<^sup>3\<close> and exact; the quotient and the product are each rounded to the nearest
  double, ties to the even significand. A non-negative finite double is kept as a pair
  \<open>(m, e)\<close> that stands for \<open>m / 2\<^sup>e\<close>.

  \<open>nearest_double a b\<close> is the double nearest to \<open>a / b\<close> for \<open>0 \<le> a\<close>, \<open>0 < b\<close> and
  \<open>a / b < 2\<^sup>5\<^sup>3\<close>: the exponent \<open>e\<close> is the least one that brings \<open>a / b * 2\<^sup>e\<close> up to
  \<open>2\<^sup>5\<^sup>2\<close>, so that the rounded significand has 53 bits, and at most 1074, where the
  subnormal numbers begin.
\<close>

type_synonym double = "int \<times> nat"

function scale_exp :: "int \<Rightarrow> int \<Rightarrow> nat \<Rightarrow> nat" where
  "scale_exp a b e = (if e < 1074 \<and> a * 2 ^ e < b * 2 ^ 52 then scale_exp a b (Suc e) else e)"
  by pat_completeness auto
termination
proof (relation "measure (\<lambda>(a, b, e). 1074 - e)")
  show "wf (measure (\<lambda>(a, b, e). 1074 - e))" by simp
next
  fix a b :: int and e :: nat
  assume "e < 1074 \<and> a * 2 ^ e < b * 2 ^ 52"
  then have "1074 - Suc e < 1074 - e" by linarith
  then show "((a, b, Suc e), (a, b, e)) \<in> measure (\<lambda>(a, b, e). 1074 - e)" by simp
qed

declare scale_exp.simps [simp del]

definition round_half_even :: "int \<Rightarrow> int \<Rightarrow> int" where
  "round_half_even n d =
     (let q = n div d; r = n mod d
      in if 2 * r < d then q else if d < 2 * r then q + 1 else if even q then q else q + 1)"

definition nearest_double :: "int \<Rightarrow> int \<Rightarrow> double" where
  "nearest_double a b = (let e = scale_exp a b 0 in (round_half_even (a * 2 ^ e) b, e))"

text \<open>\<^verbatim>\<open>c / t\<close> for two counts, and \<^verbatim>\<open>x * 100\<close>.\<close>

definition js_divide :: "nat \<Rightarrow> nat \<Rightarrow> double" where
  "js_divide c t = nearest_double (int c) (int t)"

definition js_times_100 :: "double \<Rightarrow> double" where
  "js_times_100 x = (case x of (m, e) \<Rightarrow> nearest_double (m * 100) (2 ^ e))"

text \<open>\<^verbatim>\<open>Math.round\<close>: the nearest integer, a tie going up, which is \<open>\<lfloor>x + 1/2\<rfloor>\<close>.\<close>

definition Math_round :: "double \<Rightarrow> int" where
  "Math_round x = (case x of (m, e) \<Rightarrow> (2 * m + 2 ^ e) div 2 ^ (e + 1))"

text \<open>
  The expression \<^verbatim>\<open>t > 0 ? Math.round((c / t) * 100) : 0\<close>, which the report uses for each
  phase and for the overall score.
\<close>

definition percent :: "nat \<Rightarrow> nat \<Rightarrow> int" where
  "percent c t = (if t > 0 then Math_round (js_times_100 (js_divide c t)) else 0)"

subsection \<open>The statistics of the report route\<close>

text \<open>
  An entry of \<^verbatim>\<open>phaseStats\<close>; \<open>stat_completed\<close> stands for its field \<^verbatim>\<open>completed\<close>.
\<close>

record phase_stat =
  total :: nat
  stat_completed :: nat
  percentage :: int

text \<open>
  The assignment \<^verbatim>\<open>obj[key] = value\<close> on an object created by \<^verbatim>\<open>{}\<close>, as a change of the list
  of own properties: the property is overwritten, or added at the end. The name
  \<^verbatim>\<open>__proto__\<close> is the exception: its assignment runs the setter of \<^verbatim>\<open>Object.prototype\<close>,
  which makes the value the prototype of the object and adds no own property.
\<close>

definition set_property :: "string \<Rightarrow> 'a \<Rightarrow> (string \<times> 'a) list \<Rightarrow> (string \<times> 'a) list" where
  "set_property key v obj = (if key = ''__proto__'' then obj else AList.update key v obj)"

text \<open>
  The loop of \<^verbatim>\<open>server.js\<close> lines 463--475 (the serverless report has the same loop), with
  \<^verbatim>\<open>phaseStats\<close>, \<^verbatim>\<open>totalTasks\<close> and \<^verbatim>\<open>completedTasks\<close> as accumulators, and line 477.
  \<^verbatim>\<open>phaseStats\<close> is the list of the own properties of the object.
\<close>

fun report_loop ::
  "task_mapping \<Rightarrow> (string \<times> phase_stat) list \<Rightarrow> nat \<Rightarrow> nat
     \<Rightarrow> (string \<times> phase_stat) list \<times> nat \<times> nat" where
  "report_loop [] phaseStats totalTasks completedTasks = (phaseStats, totalTasks, completedTasks)"
| "report_loop ((ph, phaseTasks) # rest) phaseStats totalTasks completedTasks =
     (let phaseCompleted = length (filter task_completed phaseTasks)
      in report_loop rest
           (set_property ph
              \<lparr> total = length phaseTasks, stat_completed = phaseCompleted,
                percentage = percent phaseCompleted (length phaseTasks) \<rparr> phaseStats)
           (totalTasks + length phaseTasks) (completedTasks + phaseCompleted))"

definition report_stats :: "task_mapping \<Rightarrow> (string \<times> phase_stat) list \<times> int" where
  "report_stats tasks =
     (case report_loop tasks [] 0 0 of
        (phaseStats, totalTasks, completedTasks) \<Rightarrow>
          (phaseStats, percent completedTasks totalTasks))"

section \<open>Sequences of calls, and the properties that are claimed\<close>

text \<open>
  A sequence of \<^verbatim>\<open>updatePhaseStatus\<close> calls on one project, each with its phase name, its
  flag and the clock reading of the call. The run stops at the first exception.
\<close>

fun updatePhaseStatus_all ::
  "project \<Rightarrow> (string \<times> bool \<times> timestamp) list \<Rightarrow> js_error + project" where
  "updatePhaseStatus_all p [] = Inr p"
| "updatePhaseStatus_all p ((ph, c, now) # calls) =
     (case updatePhaseStatus p ph c now of
        Inl e \<Rightarrow> Inl e
      | Inr p' \<Rightarrow> updatePhaseStatus_all p' calls)"

text \<open>The own properties of \<^verbatim>\<open>phases\<close> are the five phase names, each once.\<close>

definition has_five_phases :: "project \<Rightarrow> bool" where
  "has_five_phases p \<longleftrightarrow>
     distinct (map fst (phases p)) \<and> set (map fst (phases p)) = set phase_names"

text \<open>\<^verbatim>\<open>phases[ph].completed\<close> of a phase the project has.\<close>

definition phase_completed :: "project \<Rightarrow> string \<Rightarrow> bool" where
  "phase_completed p ph = (case map_of (phases p) ph of Some s \<Rightarrow> completed s | None \<Rightarrow> False)"

text \<open>Every phase record has a date exactly when its flag is set.\<close>

definition dates_consistent :: "project \<Rightarrow> bool" where
  "dates_consistent p =
     list_all (\<lambda>s. completed s = (completedDate s \<noteq> None)) (map snd (phases p))"

text \<open>
  A run of task update requests for one project, on the project and the task mapping as
  they are stored. A request is the task id, the two fields of the body and the two
  clock readings. An update that succeeds stores its project and task mapping; an error
  response stores nothing.
\<close>

type_synonym update_request = "string \<times> body_field \<times> body_field \<times> timestamp \<times> timestamp"

fun put_task_all ::
  "string \<Rightarrow> project \<Rightarrow> task_mapping \<Rightarrow> update_request list \<Rightarrow> project \<times> task_mapping" where
  "put_task_all projectId p allTasks [] = (p, allTasks)"
| "put_task_all projectId p allTasks ((taskId, completed_field, notes_field, now_task, now_phase) # requests) =
     (case put_task projectId taskId completed_field notes_field (Some p) allTasks
             now_task now_phase of
        Inl failure \<Rightarrow> put_task_all projectId p allTasks requests
      | Inr (updatedTask, p', allTasks') \<Rightarrow> put_task_all projectId p' allTasks' requests)"

text \<open>
  Every phase that the project holds as completed has a task list, which is not empty
  and whose tasks are all completed.
\<close>

definition complete_phases_justified :: "project \<Rightarrow> task_mapping \<Rightarrow> bool" where
  "complete_phases_justified p allTasks \<longleftrightarrow>
     list_all
       (\<lambda>k. phase_completed p k \<longrightarrow>
             (case map_of allTasks k of
                Some phaseTasks \<Rightarrow> phaseTasks \<noteq> [] \<and> list_all task_completed phaseTasks
              | None \<Rightarrow> False))
       (map fst (phases p))"

subsection \<open>Example data\<close>

definition acme :: project where
  "acme = new_Project ''p-1'' ''Acme'' ''2024-01-01T09:00:00.000Z''"

definition example_uuid :: "nat \<Rightarrow> string" where
  "example_uuid k = [''t-0'', ''t-1'', ''t-2'', ''t-3'', ''t-4'', ''t-5'', ''t-6'', ''t-7'',
                     ''t-8'', ''t-9''] ! k"

definition five_calls :: "(string \<times> bool \<times> timestamp) list" where
  "five_calls = [(''planning'', True, ''d1''), (''design'', True, ''d2''),
                 (''implementation'', True, ''d3''), (''testing'', True, ''d4''),
                 (''deployment'', True, ''d5'')]"

text \<open>
  A project whose planning phase was completed at \<open>d1\<close>, with two completed planning
  tasks, two open design tasks and a phase without tasks.
\<close>

definition acme_planned :: project where
  "acme_planned =
     \<lparr> project_id = ''p-1'', name = ''Acme'', createdDate = ''2024-01-01T09:00:00.000Z'',
       phases = [(''planning'', \<lparr> completed = True, completedDate = Some ''d1'' \<rparr>),
                 (''design'', new_phase), (''implementation'', new_phase),
                 (''testing'', new_phase), (''deployment'', new_phase)],
       overallStatus = ''In Progress'' \<rparr>"

definition planned_tasks :: "(string \<times> task list) list" where
  "planned_tasks =
     [(''planning'',
         [complete (new_Task ''t-0'' ''planning'' ''Threat Modeling'' ''d'') (Some ''stride'') ''d0'',
          complete (new_Task ''t-1'' ''planning'' ''Security Requirements Gathering'' ''d'')
            None ''d1'']),
      (''design'',
         [complete (new_Task ''t-2'' ''design'' ''Security Architecture Review'' ''d'') None ''d2'',
          new_Task ''t-3'' ''design'' ''Data Flow Analysis'' ''d'']),
      (''implementation'', [])]"


text \<open>
  Two open planning tasks and a phase without tasks, and the two requests that complete
  the planning tasks.
\<close>

definition open_tasks :: task_mapping where
  "open_tasks =
     [(''planning'',
         [new_Task ''t-0'' ''planning'' ''Threat Modeling'' ''d'',
          new_Task ''t-1'' ''planning'' ''Security Requirements Gathering'' ''d'']),
      (''implementation'', [])]"

definition two_requests :: "update_request list" where
  "two_requests =
     [(''t-0'', JBool True, Absent, ''d1'', ''d2''),
      (''t-1'', JBool True, JString ''done'', ''d3'', ''d4'')]"

subsection \<open>Rounding as the specification words it\<close>

text \<open>
  The percentage of the specification: \<open>round(c / t * 100)\<close> over the rationals, half
  rounded up, and 0 when there is no task.
\<close>

definition spec_percentage :: "nat \<Rightarrow> nat \<Rightarrow> int" where
  "spec_percentage c t =
     (if t = 0 then 0 else \<lfloor>(of_nat c / of_nat t * 100 + 1 / 2 :: rat)\<rfloor>)"

text \<open>\<open>c / t * 100\<close> lies exactly halfway between two integers.\<close>

definition halfway :: "nat \<Rightarrow> nat \<Rightarrow> bool" where
  "halfway c t \<longleftrightarrow> (200 * c + t) mod (2 * t) = 0"

text \<open>
  \<open>p\<close> is the rounded percentage of \<open>c\<close> out of \<open>t\<close>, except that exactly halfway it may
  also be the integer below.
\<close>

definition rounded_percentage :: "int \<Rightarrow> nat \<Rightarrow> nat \<Rightarrow> bool" where
  "rounded_percentage p c t \<longleftrightarrow>
     (if t = 0 then p = 0
      else if halfway c t then p = spec_percentage c t \<or> p = spec_percentage c t - 1
      else p = spec_percentage c t)"

definition count_total :: "task_mapping \<Rightarrow> nat" where
  "count_total tasks = sum_list (map (\<lambda>entry. length (snd entry)) tasks)"

definition count_completed :: "task_mapping \<Rightarrow> nat" where
  "count_completed tasks =
     sum_list (map (\<lambda>entry. length (filter task_completed (snd entry))) tasks)"

text \<open>The default tasks with the first task of each phase completed: 5 of 10.\<close>

definition half_done :: task_mapping where
  "half_done =
     map (\<lambda>entry. (fst entry, complete (hd (snd entry)) None ''d1'' # tl (snd entry)))
       (getDefaultTasks example_uuid)"

text \<open>A planning phase of 8 tasks, of which the first is completed.\<close>

definition eight_tasks :: task_mapping where
  "eight_tasks =
     [(''planning'',
        map (\<lambda>k. (new_Task (''t-'' @ replicate k CHR ''i'') ''planning'' ''Task'' ''d'')
                    \<lparr> task_completed := k < 1,
                      task_completedDate := (if k < 1 then Some ''d1'' else None) \<rparr>)
          [0..<8])]"

text \<open>A planning phase of 40 tasks, of which the first 23 are completed.\<close>

definition forty_tasks :: task_mapping where
  "forty_tasks =
     [(''planning'',
        map (\<lambda>k. (new_Task (''t-'' @ replicate k CHR ''i'') ''planning'' ''Task'' ''d'')
                    \<lparr> task_completed := k < 23,
                      task_completedDate := (if k < 23 then Some ''d1'' else None) \<rparr>)
          [0..<40])]"

section \<open>Tasks\<close>

lemma update_task_fields_sel [simp]:
  "task_completed (update_task_fields t (Some c) n now) = c"
  "task_completedDate (update_task_fields t (Some c) n now) = (if c then Some now else None)"
  "task_completed (update_task_fields t None n now) = task_completed t"
  "task_completedDate (update_task_fields t None n now) = task_completedDate t"
  "task_id (update_task_fields t a n now) = task_id t"
  "task_notes (update_task_fields t a (Some s) now) = s"
  "task_notes (update_task_fields t a None now) = task_notes t"
  by (simp_all add: update_task_fields_def Let_def split: option.splits)

text \<open>
  Claim C5. A task update with \<^verbatim>\<open>completed\<close> true sets the flag and stamps \<^verbatim>\<open>completedDate\<close>
  with the clock reading; with \<^verbatim>\<open>completed\<close> false it clears the flag and the date. Sending
  the same boolean again leaves the flag as it is, but a second \<^verbatim>\<open>true\<close> stamps the date
  with the new reading, so that the task changes whenever the two readings differ.
\<close>

theorem task_completion_stamp:
  "task_completed (update_task_fields t (Some True) n now) = True
   \<and> task_completedDate (update_task_fields t (Some True) n now) = Some now
   \<and> task_completed (update_task_fields t (Some False) n now) = False
   \<and> task_completedDate (update_task_fields t (Some False) n now) = None
   \<and> task_completed (update_task_fields (update_task_fields t (Some c) n now) (Some c) n' now')
       = task_completed (update_task_fields t (Some c) n now)
   \<and> task_completedDate
         (update_task_fields (update_task_fields t (Some True) n now) (Some True) n' now')
       = Some now'
   \<and> (now' \<noteq> now \<longrightarrow>
        update_task_fields (update_task_fields t (Some True) n now) (Some True) n now'
        \<noteq> update_task_fields t (Some True) n now)"
proof -
  have "update_task_fields (update_task_fields t (Some True) n now) (Some True) n now'
        \<noteq> update_task_fields t (Some True) n now" if "now' \<noteq> now"
  proof
    assume "update_task_fields (update_task_fields t (Some True) n now) (Some True) n now'
            = update_task_fields t (Some True) n now"
    then have "task_completedDate
                 (update_task_fields (update_task_fields t (Some True) n now) (Some True) n now')
               = task_completedDate (update_task_fields t (Some True) n now)"
      by (rule arg_cong)
    with that show False by simp
  qed
  then show ?thesis by simp
qed

text \<open>The same at a task of the catalogue, completed at \<open>d1\<close> and again at \<open>d2\<close>.\<close>

theorem task_completion_stamp_witness:
  "''d2'' \<noteq> ''d1''
   \<and> task_completedDate
        (update_task_fields
           (update_task_fields (new_Task ''t-0'' ''planning'' ''Threat Modeling'' ''d'')
              (Some True) None ''d1'')
           (Some True) None ''d2'') = Some ''d2''
   \<and> update_task_fields
        (update_task_fields (new_Task ''t-0'' ''planning'' ''Threat Modeling'' ''d'')
           (Some True) None ''d1'')
        (Some True) None ''d2''
     \<noteq> update_task_fields (new_Task ''t-0'' ''planning'' ''Threat Modeling'' ''d'')
         (Some True) None ''d1''"
  using task_completion_stamp
    [of "new_Task ''t-0'' ''planning'' ''Threat Modeling'' ''d''" None "''d1''" True None "''d2''"]
  by simp

text \<open>
  Claim C7. \<^verbatim>\<open>addEvidence\<close> is idempotent: a reference that is already in \<^verbatim>\<open>evidenceFiles\<close>
  leaves the task as it is, a new one is appended at the end, the references that were
  there keep their places, no reference comes to occur twice, and adding \<^verbatim>\<open>a.pdf\<close> twice
  to a fresh task leaves one reference.
\<close>

theorem addEvidence_idempotent:
  "addEvidence (addEvidence t f) f = addEvidence t f
   \<and> (f \<in> set (evidenceFiles t) \<longrightarrow> addEvidence t f = t)
   \<and> (f \<notin> set (evidenceFiles t) \<longrightarrow>
        evidenceFiles (addEvidence t f) = evidenceFiles t @ [f])
   \<and> take (length (evidenceFiles t)) (evidenceFiles (addEvidence t f)) = evidenceFiles t
   \<and> (distinct (evidenceFiles t) \<longrightarrow> distinct (evidenceFiles (addEvidence t f)))
   \<and> length (evidenceFiles (addEvidence (addEvidence (new_Task u ph ttl d) ''a.pdf'') ''a.pdf''))
       = 1"
  by (simp add: addEvidence_def new_Task_def)

text \<open>
  A fresh task takes \<^verbatim>\<open>a.pdf\<close> (not yet present) and then \<^verbatim>\<open>b.pdf\<close>; \<^verbatim>\<open>a.pdf\<close> again
  (now present) changes nothing.
\<close>

theorem addEvidence_idempotent_witness:
  "evidenceFiles (addEvidence (new_Task ''t-0'' ''planning'' ''Threat Modeling'' ''d'') ''a.pdf'')
     = [''a.pdf'']
   \<and> evidenceFiles
        (addEvidence
           (addEvidence (new_Task ''t-0'' ''planning'' ''Threat Modeling'' ''d'') ''a.pdf'')
           ''b.pdf'') = [''a.pdf'', ''b.pdf'']
   \<and> distinct (evidenceFiles
        (addEvidence
           (addEvidence (new_Task ''t-0'' ''planning'' ''Threat Modeling'' ''d'') ''a.pdf'')
           ''b.pdf''))
   \<and> addEvidence
        (addEvidence
           (addEvidence (new_Task ''t-0'' ''planning'' ''Threat Modeling'' ''d'') ''a.pdf'')
           ''b.pdf'') ''a.pdf''
     = addEvidence
         (addEvidence (new_Task ''t-0'' ''planning'' ''Threat Modeling'' ''d'') ''a.pdf'')
         ''b.pdf''"
  using addEvidence_idempotent
    [of "new_Task ''t-0'' ''planning'' ''Threat Modeling'' ''d''" "''a.pdf''"]
    addEvidence_idempotent
    [of "addEvidence (new_Task ''t-0'' ''planning'' ''Threat Modeling'' ''d'') ''a.pdf''" "''b.pdf''"]
    addEvidence_idempotent
    [of "addEvidence
           (addEvidence (new_Task ''t-0'' ''planning'' ''Threat Modeling'' ''d'') ''a.pdf'')
           ''b.pdf''" "''a.pdf''"]
  by (simp add: addEvidence_def new_Task_def)

text \<open>The upload route adds the files one after the other as \<^verbatim>\<open>addEvidence\<close> does.\<close>

lemma add_uploaded_files_foldl: "add_uploaded_files t fs = foldl addEvidence t fs"
  by (induction fs arbitrary: t) (simp_all add: addEvidence_def)

text \<open>
  Claim C9. \<^verbatim>\<open>complete\<close> sets the flag, stamps the date and overwrites the notes with its
  argument; without an argument the notes become the empty string, so that notes that
  were stored before are lost.
\<close>

theorem complete_overwrites_notes:
  "task_notes (complete t None now) = []
   \<and> task_notes (complete t (Some n) now) = n
   \<and> task_completed (complete t a now) = True
   \<and> task_completedDate (complete t a now) = Some now
   \<and> (task_notes t \<noteq> [] \<longrightarrow> task_notes (complete t None now) \<noteq> task_notes t)"
  by (simp add: complete_def)

text \<open>A task completed with the note \<^verbatim>\<open>stride\<close> and then completed again without one.\<close>

theorem complete_overwrites_notes_witness:
  "task_notes (complete (new_Task ''t-0'' ''planning'' ''Threat Modeling'' ''d'') (Some ''stride'') ''d0'')
     \<noteq> []
   \<and> task_notes
        (complete
           (complete (new_Task ''t-0'' ''planning'' ''Threat Modeling'' ''d'') (Some ''stride'') ''d0'')
           None ''d1'') = []
   \<and> task_completedDate
        (complete
           (complete (new_Task ''t-0'' ''planning'' ''Threat Modeling'' ''d'') (Some ''stride'') ''d0'')
           None ''d1'') = Some ''d1''"
  using complete_overwrites_notes
    [of "complete (new_Task ''t-0'' ''planning'' ''Threat Modeling'' ''d'') (Some ''stride'') ''d0''"
        "''d1''" "''x''" None]
  by (simp add: complete_def)

section \<open>Projects\<close>

lemma map_of_Some_key: "map_of obj k = Some v \<Longrightarrow> k \<in> set (map fst obj)"
  by (metis map_of_eq_None_iff option.distinct(1) set_map)

lemma key_map_of_Some: "k \<in> set (map fst obj) \<Longrightarrow> \<exists>v. map_of obj k = Some v"
  by (metis map_of_eq_None_iff not_Some_eq set_map)

lemma updatePhaseStatus_own:
  assumes "map_of (phases p) ph = Some v"
  shows "updatePhaseStatus p ph c now =
           Inr (recompute_overallStatus
                 (p\<lparr> phases := AList.update ph
                        \<lparr> completed = c, completedDate = (if c then Some now else None) \<rparr>
                        (phases p) \<rparr>))"
  using assms by (simp add: updatePhaseStatus_def get_property_def)

lemma updatePhaseStatus_not_own:
  assumes "map_of (phases p) ph = None"
  shows "updatePhaseStatus p ph c now =
           (if ph \<in> set object_prototype_names then Inr (recompute_overallStatus p)
            else Inl (Error (''Invalid phase: '' @ ph)))"
  using assms by (simp add: updatePhaseStatus_def get_property_def)

lemma updatePhaseStatus_phases:
  assumes "updatePhaseStatus p ph c now = Inr q"
  shows "phases q =
           (if ph \<in> set (map fst (phases p))
            then AList.update ph
                   \<lparr> completed = c, completedDate = (if c then Some now else None) \<rparr> (phases p)
            else phases p)"
proof (cases "map_of (phases p) ph")
  case None
  then have "ph \<notin> set (map fst (phases p))" by (simp add: map_of_eq_None_iff)
  with None assms show ?thesis
    by (auto simp: updatePhaseStatus_not_own recompute_overallStatus_def split: if_splits)
next
  case (Some v)
  then have "ph \<in> set (map fst (phases p))" by (rule map_of_Some_key)
  with Some assms show ?thesis
    by (auto simp: updatePhaseStatus_own recompute_overallStatus_def)
qed

lemma updatePhaseStatus_frame:
  assumes "updatePhaseStatus p ph c now = Inr q"
  shows "overallStatus q = (if allPhasesCompleted (phases q) then ''Completed'' else ''In Progress'')"
    and "project_id q = project_id p" and "name q = name p" and "createdDate q = createdDate p"
  using assms
  by (auto simp: updatePhaseStatus_def recompute_overallStatus_def split: property.splits)

lemma updatePhaseStatus_keys:
  assumes "updatePhaseStatus p ph c now = Inr q"
  shows "map fst (phases q) = map fst (phases p)"
  using updatePhaseStatus_phases[OF assms] by (simp add: AList.update_keys)

lemma updatePhaseStatus_other:
  assumes "updatePhaseStatus p ph c now = Inr q" "k \<noteq> ph"
  shows "map_of (phases q) k = map_of (phases p) k"
  using updatePhaseStatus_phases[OF assms(1)] assms(2) by (simp add: AList.update_conv')

lemma updatePhaseStatus_status_irrelevant:
  "updatePhaseStatus (p\<lparr> overallStatus := s \<rparr>) ph c now = updatePhaseStatus p ph c now"
  by (simp add: updatePhaseStatus_def recompute_overallStatus_def split: property.splits)

text \<open>With each name once, all values are completed when each name looks up a completed one.\<close>

lemma allPhasesCompleted_iff:
  assumes "distinct (map fst phs)"
  shows "allPhasesCompleted phs \<longleftrightarrow>
         (\<forall>k \<in> set (map fst phs). case map_of phs k of Some s \<Rightarrow> completed s | None \<Rightarrow> False)"
proof -
  have "allPhasesCompleted phs \<longleftrightarrow> (\<forall>kv \<in> set phs. completed (snd kv))"
    by (simp add: allPhasesCompleted_def list_all_iff)
  also have "\<dots> \<longleftrightarrow>
    (\<forall>k \<in> set (map fst phs). case map_of phs k of Some s \<Rightarrow> completed s | None \<Rightarrow> False)"
  proof (intro iffI ballI)
    fix k assume all: "\<forall>kv \<in> set phs. completed (snd kv)" and "k \<in> set (map fst phs)"
    then obtain v where kv: "(k, v) \<in> set phs" by auto
    with assms have "map_of phs k = Some v" by simp
    with all kv show "case map_of phs k of Some s \<Rightarrow> completed s | None \<Rightarrow> False" by auto
  next
    fix kv
    assume all: "\<forall>k \<in> set (map fst phs).
                   case map_of phs k of Some s \<Rightarrow> completed s | None \<Rightarrow> False"
      and kv: "kv \<in> set phs"
    then have "map_of phs (fst kv) = Some (snd kv)" using assms by simp
    moreover from kv have "fst kv \<in> set (map fst phs)" by simp
    ultimately show "completed (snd kv)" using all by fastforce
  qed
  finally show ?thesis .
qed

lemma status_iff_five:
  assumes "has_five_phases q"
    and "overallStatus q = (if allPhasesCompleted (phases q) then ''Completed'' else ''In Progress'')"
  shows "(overallStatus q = ''Completed'') = list_all (phase_completed q) phase_names"
    and "(overallStatus q = ''In Progress'') = (\<not> list_all (phase_completed q) phase_names)"
proof -
  from assms(1) have d: "distinct (map fst (phases q))"
    and k: "set (map fst (phases q)) = set phase_names"
    by (simp_all add: has_five_phases_def)
  have "allPhasesCompleted (phases q) = list_all (phase_completed q) phase_names"
    unfolding allPhasesCompleted_iff[OF d] k list_all_iff phase_completed_def ..
  with assms(2) show "(overallStatus q = ''Completed'') = list_all (phase_completed q) phase_names"
    and "(overallStatus q = ''In Progress'') = (\<not> list_all (phase_completed q) phase_names)"
    by simp_all
qed

lemma has_five_phases_update:
  assumes "has_five_phases p" "updatePhaseStatus p ph c now = Inr q"
  shows "has_five_phases q"
  using assms(1) updatePhaseStatus_keys[OF assms(2)] by (simp add: has_five_phases_def)

lemma valid_name_succeeds:
  assumes "has_five_phases p" "ph \<in> set phase_names"
  shows "\<exists>q. updatePhaseStatus p ph c now = Inr q"
proof -
  from assms have "ph \<in> set (map fst (phases p))" by (simp add: has_five_phases_def)
  then obtain v where "map_of (phases p) ph = Some v" using key_map_of_Some by fastforce
  then show ?thesis by (simp add: updatePhaseStatus_own)
qed

lemma updatePhaseStatus_all_valid:
  assumes "has_five_phases p" "calls \<noteq> []" "list_all (\<lambda>call. fst call \<in> set phase_names) calls"
  shows "\<exists>q. updatePhaseStatus_all p calls = Inr q \<and> has_five_phases q
             \<and> overallStatus q =
                   (if allPhasesCompleted (phases q) then ''Completed'' else ''In Progress'')"
  using assms
proof (induction calls arbitrary: p)
  case Nil
  then show ?case by simp
next
  case (Cons call calls)
  obtain ph c now where call: "call = (ph, c, now)" by (cases call)
  with Cons.prems have "ph \<in> set phase_names" by simp
  with Cons.prems(1) obtain p' where p': "updatePhaseStatus p ph c now = Inr p'"
    using valid_name_succeeds by blast
  have five: "has_five_phases p'" using Cons.prems(1) p' by (rule has_five_phases_update)
  show ?case
  proof (cases "calls = []")
    case True
    with call p' five updatePhaseStatus_frame(1)[OF p'] show ?thesis by simp
  next
    case False
    with Cons.IH[OF five] Cons.prems(3) call p' show ?thesis by simp
  qed
qed

lemma updatePhaseStatus_all_status_irrelevant:
  "calls \<noteq> [] \<Longrightarrow>
   updatePhaseStatus_all (p\<lparr> overallStatus := s \<rparr>) calls = updatePhaseStatus_all p calls"
  by (cases calls) (auto simp: updatePhaseStatus_status_irrelevant)

text \<open>
  Claim C1. Take a project with the five phases and a non-empty sequence of
  \<^verbatim>\<open>updatePhaseStatus\<close> calls whose phase names are among the five. Every call returns, and
  after the last one (hence after each one, a prefix being such a sequence)
  \<^verbatim>\<open>overallStatus\<close> is \<^verbatim>\<open>Completed\<close> exactly when all five phases are completed and
  \<^verbatim>\<open>In Progress\<close> exactly when they are not. The status is recomputed: the run gives the
  same project whatever \<^verbatim>\<open>overallStatus\<close> held before it.
\<close>

theorem overallStatus_recomputed:
  assumes "has_five_phases p" and "calls \<noteq> []"
    and "list_all (\<lambda>call. fst call \<in> set phase_names) calls"
  shows "\<exists>q. updatePhaseStatus_all p calls = Inr q
           \<and> (overallStatus q = ''Completed'') = list_all (phase_completed q) phase_names
           \<and> (overallStatus q = ''In Progress'') = (\<not> list_all (phase_completed q) phase_names)
           \<and> updatePhaseStatus_all (p\<lparr> overallStatus := s \<rparr>) calls = Inr q"
proof -
  from updatePhaseStatus_all_valid[OF assms] obtain q where
    q: "updatePhaseStatus_all p calls = Inr q" "has_five_phases q"
      "overallStatus q = (if allPhasesCompleted (phases q) then ''Completed'' else ''In Progress'')"
    by blast
  from status_iff_five[OF q(2,3)] q(1) updatePhaseStatus_all_status_irrelevant[OF assms(2)]
  show ?thesis by simp
qed

text \<open>
  A new project whose five phases are completed one after the other ends as
  \<^verbatim>\<open>Completed\<close>, also when it starts from a stale status.
\<close>

theorem overallStatus_recomputed_witness:
  "has_five_phases acme \<and> five_calls \<noteq> []
   \<and> list_all (\<lambda>call. fst call \<in> set phase_names) five_calls
   \<and> (\<exists>q. updatePhaseStatus_all acme five_calls = Inr q
          \<and> overallStatus q = ''Completed''
          \<and> list_all (phase_completed q) phase_names
          \<and> updatePhaseStatus_all (acme\<lparr> overallStatus := ''stale'' \<rparr>) five_calls = Inr q)"
proof -
  have h: "has_five_phases acme" "five_calls \<noteq> []"
    "list_all (\<lambda>call. fst call \<in> set phase_names) five_calls"
    by (simp_all add: has_five_phases_def acme_def new_Project_def phase_names_def five_calls_def)
  have "overallStatus q = ''Completed''" if "updatePhaseStatus_all acme five_calls = Inr q" for q
    using that
    by (auto simp: acme_def new_Project_def new_phase_def five_calls_def updatePhaseStatus_def
        get_property_def recompute_overallStatus_def allPhasesCompleted_def)
  with overallStatus_recomputed[OF h, of "''stale''"] h show ?thesis by auto
qed

lemma list_all_update:
  "list_all P (map snd al) \<Longrightarrow> P v \<Longrightarrow> list_all P (map snd (AList.update k v al))"
  by (induction al) auto

lemma dates_consistent_update:
  assumes "dates_consistent p" "updatePhaseStatus p ph c now = Inr q"
  shows "dates_consistent q"
  using assms(1) updatePhaseStatus_phases[OF assms(2)]
  by (auto simp: dates_consistent_def intro: list_all_update)

lemma dates_consistent_all:
  "dates_consistent p \<Longrightarrow> updatePhaseStatus_all p calls = Inr q \<Longrightarrow> dates_consistent q"
proof (induction calls arbitrary: p)
  case Nil
  then show ?case by simp
next
  case (Cons call calls)
  obtain ph c now where call: "call = (ph, c, now)" by (cases call)
  with Cons.prems(2) obtain p' where p': "updatePhaseStatus p ph c now = Inr p'"
    and rest: "updatePhaseStatus_all p' calls = Inr q"
    by (auto split: sum.splits)
  from Cons.prems(1) p' have "dates_consistent p'" by (rule dates_consistent_update)
  then show ?case using rest by (rule Cons.IH)
qed

lemma dates_consistent_new: "dates_consistent (new_Project u n t0)"
  by (simp add: dates_consistent_def new_Project_def new_phase_def)

text \<open>
  \<^verbatim>\<open>updatePhaseStatus\<close> does throw for a name that is neither a phase of the project nor a
  member of \<^verbatim>\<open>Object.prototype\<close>; the project is not touched before the \<^verbatim>\<open>throw\<close>.
\<close>

lemma updatePhaseStatus_unknown_name:
  assumes "ph \<notin> set (map fst (phases p))" and "ph \<notin> set object_prototype_names"
  shows "updatePhaseStatus p ph c now = Inl (Error (''Invalid phase: '' @ ph))"
  using assms by (simp add: updatePhaseStatus_not_own map_of_eq_None_iff)

text \<open>
  Claim C8. The claim asks for an error at every name outside the five phases. The guard
  \<^verbatim>\<open>!this.phases[phase]\<close> reads through the prototype chain, so that the name
  \<^verbatim>\<open>constructor\<close>, which is none of the five, passes it: on a new project the call returns
  without an error and leaves the project as it was.
\<close>

theorem updatePhaseStatus_inherited_name:
  "List.member phase_names ''constructor'' = False
   \<and> updatePhaseStatus (new_Project uuid nm t0) ''constructor'' True now
       = Inr (new_Project uuid nm t0)"
  by (simp add: phase_names_def updatePhaseStatus_def get_property_def new_Project_def
      new_phase_def object_prototype_names_def recompute_overallStatus_def allPhasesCompleted_def)

section \<open>The task update route\<close>

lemma findIndex_Some:
  "findIndex P xs = Some i \<Longrightarrow> i < length xs \<and> P (xs ! i) \<and> (\<forall>j < i. \<not> P (xs ! j))"
proof (induction xs arbitrary: i)
  case Nil
  then show ?case by simp
next
  case (Cons x xs)
  show ?case
  proof (cases "P x")
    case True
    with Cons.prems show ?thesis by simp
  next
    case False
    with Cons.prems obtain k where k: "findIndex P xs = Some k" "i = Suc k" by auto
    from Cons.IH[OF k(1)] k(2) False show ?thesis
      by (auto simp: nth_Cons split: nat.splits)
  qed
qed

lemma findIndex_None: "findIndex P xs = None \<longleftrightarrow> (\<forall>x \<in> set xs. \<not> P x)"
  by (induction xs) auto

text \<open>
  What a run of the loop that found the task did: the phases before the one updated hold
  no task with the id, the task at the first matching index was replaced by its update,
  and the project is the result of \<^verbatim>\<open>updatePhaseStatus\<close> for that phase.
\<close>

lemma update_loop_found:
  assumes "update_loop allTasks taskId ca na now_task now_phase p = Inr (allTasks', q, Some u)"
  shows "\<exists>pre ph phaseTasks post i.
           allTasks = pre @ (ph, phaseTasks) # post
         \<and> (\<forall>kv \<in> set pre. \<forall>t \<in> set (snd kv). task_id t \<noteq> taskId)
         \<and> findIndex (\<lambda>t. task_id t = taskId) phaseTasks = Some i
         \<and> u = update_task_fields (phaseTasks ! i) ca na now_task
         \<and> allTasks' = pre @ (ph, phaseTasks[i := u]) # post
         \<and> updatePhaseStatus p ph (list_all task_completed (phaseTasks[i := u])) now_phase = Inr q"
  using assms
proof (induction allTasks arbitrary: allTasks')
  case Nil
  then show ?case by simp
next
  case (Cons entry rest)
  obtain ph phaseTasks where entry: "entry = (ph, phaseTasks)" by (cases entry)
  show ?case
  proof (cases "findIndex (\<lambda>t. task_id t = taskId) phaseTasks")
    case None
    with Cons.prems entry obtain rest' where
      r: "update_loop rest taskId ca na now_task now_phase p = Inr (rest', q, Some u)"
      and a: "allTasks' = (ph, phaseTasks) # rest'"
      by (auto split: sum.splits prod.splits)
    from Cons.IH[OF r] obtain pre ph' phaseTasks' post i where
      h: "rest = pre @ (ph', phaseTasks') # post"
         "\<forall>kv \<in> set pre. \<forall>t \<in> set (snd kv). task_id t \<noteq> taskId"
         "findIndex (\<lambda>t. task_id t = taskId) phaseTasks' = Some i"
         "u = update_task_fields (phaseTasks' ! i) ca na now_task"
         "rest' = pre @ (ph', phaseTasks'[i := u]) # post"
         "updatePhaseStatus p ph' (list_all task_completed (phaseTasks'[i := u])) now_phase = Inr q"
      by blast
    from None have none: "\<forall>t \<in> set phaseTasks. task_id t \<noteq> taskId"
      by (simp add: findIndex_None)
    from h none entry a have
      "entry # rest = ((ph, phaseTasks) # pre) @ (ph', phaseTasks') # post
       \<and> (\<forall>kv \<in> set ((ph, phaseTasks) # pre). \<forall>t \<in> set (snd kv). task_id t \<noteq> taskId)
       \<and> findIndex (\<lambda>t. task_id t = taskId) phaseTasks' = Some i
       \<and> u = update_task_fields (phaseTasks' ! i) ca na now_task
       \<and> allTasks' = ((ph, phaseTasks) # pre) @ (ph', phaseTasks'[i := u]) # post
       \<and> updatePhaseStatus p ph' (list_all task_completed (phaseTasks'[i := u])) now_phase = Inr q"
      by simp
    then show ?thesis by blast
  next
    case (Some i)
    with Cons.prems entry have
      "u = update_task_fields (phaseTasks ! i) ca na now_task"
      "allTasks' = (ph, phaseTasks[i := u]) # rest"
      "updatePhaseStatus p ph (list_all task_completed (phaseTasks[i := u])) now_phase = Inr q"
      by (auto simp: Let_def split: sum.splits)
    with Some entry have
      "entry # rest = [] @ (ph, phaseTasks) # rest
       \<and> (\<forall>kv \<in> set []. \<forall>t \<in> set (snd kv). task_id t \<noteq> taskId)
       \<and> findIndex (\<lambda>t. task_id t = taskId) phaseTasks = Some i
       \<and> u = update_task_fields (phaseTasks ! i) ca na now_task
       \<and> allTasks' = [] @ (ph, phaseTasks[i := u]) # rest
       \<and> updatePhaseStatus p ph (list_all task_completed (phaseTasks[i := u])) now_phase = Inr q"
      by simp
    then show ?thesis by blast
  qed
qed

lemma put_task_success:
  assumes "put_task projectId taskId cf nf projectData allTasks now_task now_phase
             = Inr (u, q, allTasks')"
  shows "\<exists>p. projectData = Some p
           \<and> (cf = Absent \<or> is_boolean cf) \<and> (nf = Absent \<or> is_string nf)
           \<and> update_loop allTasks taskId
                (case cf of JBool b \<Rightarrow> Some b | _ \<Rightarrow> None)
                (case nf of JString n \<Rightarrow> Some n | _ \<Rightarrow> None)
                now_task now_phase p = Inr (allTasks', q, Some u)"
  using assms
  by (auto simp: put_task_def split: if_splits option.splits sum.splits prod.splits)

lemma put_task_found:
  assumes "put_task projectId taskId cf nf (Some p) allTasks now_task now_phase
             = Inr (u, q, allTasks')"
  obtains pre ph phaseTasks post i where
    "allTasks = pre @ (ph, phaseTasks) # post"
    "\<forall>kv \<in> set pre. \<forall>t \<in> set (snd kv). task_id t \<noteq> taskId"
    "findIndex (\<lambda>t. task_id t = taskId) phaseTasks = Some i"
    "u = update_task_fields (phaseTasks ! i)
           (case cf of JBool b \<Rightarrow> Some b | _ \<Rightarrow> None)
           (case nf of JString n \<Rightarrow> Some n | _ \<Rightarrow> None) now_task"
    "allTasks' = pre @ (ph, phaseTasks[i := u]) # post"
    "updatePhaseStatus p ph (list_all task_completed (phaseTasks[i := u])) now_phase = Inr q"
proof -
  from put_task_success[OF assms] have
    "update_loop allTasks taskId
        (case cf of JBool b \<Rightarrow> Some b | _ \<Rightarrow> None)
        (case nf of JString n \<Rightarrow> Some n | _ \<Rightarrow> None)
        now_task now_phase p = Inr (allTasks', q, Some u)"
    by simp
  from update_loop_found[OF this] that show thesis by blast
qed

lemma put_task_dates_consistent:
  assumes "dates_consistent p"
    and "put_task projectId taskId cf nf (Some p) allTasks now_task now_phase
           = Inr (u, q, allTasks')"
  shows "dates_consistent q"
proof -
  from assms(2) obtain ph c where "updatePhaseStatus p ph c now_phase = Inr q"
    by (rule put_task_found)
  with assms(1) show ?thesis by (rule dates_consistent_update)
qed

text \<open>
  The phase that holds the updated task has its flag set exactly when every task of its
  list is completed; the record of a phase without tasks is the one from before.
\<close>

lemma put_task_phase_flag:
  assumes "put_task projectId taskId cf nf (Some p) allTasks now_task now_phase
             = Inr (u, q, allTasks')"
    and "distinct (map fst allTasks)"
    and "set (map fst allTasks) \<subseteq> set (map fst (phases p))"
  shows "\<exists>ph phaseTasks' s.
           map_of allTasks' ph = Some phaseTasks' \<and> u \<in> set phaseTasks'
         \<and> map_of (phases q) ph = Some s
         \<and> completed s = (\<forall>t \<in> set phaseTasks'. task_completed t)
         \<and> (\<forall>k. map_of allTasks' k = Some [] \<longrightarrow> map_of (phases q) k = map_of (phases p) k)"
proof -
  from assms(1) obtain pre ph phaseTasks post i where
    h: "allTasks = pre @ (ph, phaseTasks) # post"
       "findIndex (\<lambda>t. task_id t = taskId) phaseTasks = Some i"
       "allTasks' = pre @ (ph, phaseTasks[i := u]) # post"
       "updatePhaseStatus p ph (list_all task_completed (phaseTasks[i := u])) now_phase = Inr q"
    by (rule put_task_found)
  let ?ts = "phaseTasks[i := u]"
  from h(2) have i: "i < length phaseTasks" by (simp add: findIndex_Some)
  have keys: "map fst allTasks' = map fst allTasks" using h(1,3) by simp
  with assms(2) have d: "distinct (map fst allTasks')" by simp
  have mem: "(ph, ?ts) \<in> set allTasks'" using h(3) by simp
  with d have look: "map_of allTasks' ph = Some ?ts" by simp
  from i have u: "u \<in> set ?ts" by (simp add: set_update_memI)
  from h(1) assms(3) have "ph \<in> set (map fst (phases p))" by auto
  with updatePhaseStatus_phases[OF h(4)] have
    st: "map_of (phases q) ph =
           Some \<lparr> completed = list_all task_completed ?ts,
                  completedDate = (if list_all task_completed ?ts then Some now_phase else None) \<rparr>"
    by (simp add: AList.update_conv')
  have empty: "map_of (phases q) k = map_of (phases p) k" if "map_of allTasks' k = Some []" for k
  proof -
    from that look u have "k \<noteq> ph" by auto
    with h(4) show ?thesis by (simp add: updatePhaseStatus_other)
  qed
  let ?s = "\<lparr> completed = list_all task_completed ?ts,
               completedDate = (if list_all task_completed ?ts then Some now_phase else None) \<rparr>"
  have "completed ?s = (\<forall>t \<in> set ?ts. task_completed t)" by (simp add: list_all_iff)
  with look u st empty have
    "map_of allTasks' ph = Some ?ts \<and> u \<in> set ?ts \<and> map_of (phases q) ph = Some ?s
     \<and> completed ?s = (\<forall>t \<in> set ?ts. task_completed t)
     \<and> (\<forall>k. map_of allTasks' k = Some [] \<longrightarrow> map_of (phases q) k = map_of (phases p) k)"
    by blast
  then show ?thesis by blast
qed

lemma map_of_replace_other:
  "k \<noteq> ph \<Longrightarrow> map_of (pre @ (ph, a) # post) k = map_of (pre @ (ph, b) # post) k"
  by (induction pre) auto

lemma complete_phases_justified_iff:
  "complete_phases_justified p allTasks \<longleftrightarrow>
     (\<forall>k. phase_completed p k \<longrightarrow>
          (\<exists>phaseTasks. map_of allTasks k = Some phaseTasks \<and> phaseTasks \<noteq> []
                        \<and> list_all task_completed phaseTasks))"
proof
  assume j: "complete_phases_justified p allTasks"
  show "\<forall>k. phase_completed p k \<longrightarrow>
          (\<exists>phaseTasks. map_of allTasks k = Some phaseTasks \<and> phaseTasks \<noteq> []
                        \<and> list_all task_completed phaseTasks)"
  proof (intro allI impI)
    fix k assume c: "phase_completed p k"
    then have "k \<in> set (map fst (phases p))"
      by (auto simp: phase_completed_def split: option.splits dest: map_of_Some_key)
    with j c have
      "case map_of allTasks k of
         Some phaseTasks \<Rightarrow> phaseTasks \<noteq> [] \<and> list_all task_completed phaseTasks
       | None \<Rightarrow> False"
      unfolding complete_phases_justified_def list_all_iff by blast
    then show "\<exists>phaseTasks. map_of allTasks k = Some phaseTasks \<and> phaseTasks \<noteq> []
                        \<and> list_all task_completed phaseTasks"
      by (cases "map_of allTasks k") simp_all
  qed
next
  assume "\<forall>k. phase_completed p k \<longrightarrow>
          (\<exists>phaseTasks. map_of allTasks k = Some phaseTasks \<and> phaseTasks \<noteq> []
                        \<and> list_all task_completed phaseTasks)"
  then show "complete_phases_justified p allTasks"
    unfolding complete_phases_justified_def list_all_iff by fastforce
qed

lemma complete_phases_justified_new: "complete_phases_justified (new_Project uuid nm t0) allTasks"
  by (simp add: complete_phases_justified_def new_Project_def new_phase_def phase_completed_def)

lemma put_task_keys:
  assumes "put_task projectId taskId cf nf (Some p) allTasks now_task now_phase
             = Inr (u, q, allTasks')"
  shows "map fst allTasks' = map fst allTasks"
proof -
  from assms obtain pre ph phaseTasks post i where
    "allTasks = pre @ (ph, phaseTasks) # post" "allTasks' = pre @ (ph, phaseTasks[i := u]) # post"
    by (rule put_task_found)
  then show ?thesis by simp
qed

lemma put_task_justified:
  assumes run: "put_task projectId taskId cf nf (Some p) allTasks now_task now_phase
                  = Inr (u, q, allTasks')"
    and d: "distinct (map fst allTasks)"
    and j: "complete_phases_justified p allTasks"
  shows "complete_phases_justified q allTasks'"
proof -
  from run obtain pre ph phaseTasks post i where
    h: "allTasks = pre @ (ph, phaseTasks) # post"
       "findIndex (\<lambda>t. task_id t = taskId) phaseTasks = Some i"
       "allTasks' = pre @ (ph, phaseTasks[i := u]) # post"
       "updatePhaseStatus p ph (list_all task_completed (phaseTasks[i := u])) now_phase = Inr q"
    by (rule put_task_found)
  let ?ts = "phaseTasks[i := u]"
  from h(2) have i: "i < length phaseTasks" by (simp add: findIndex_Some)
  then have ne: "?ts \<noteq> []" by auto
  from d put_task_keys[OF run] have "distinct (map fst allTasks')" by simp
  moreover have "(ph, ?ts) \<in> set allTasks'" using h(3) by simp
  ultimately have look: "map_of allTasks' ph = Some ?ts" by simp
  have "\<exists>ts. map_of allTasks' k = Some ts \<and> ts \<noteq> [] \<and> list_all task_completed ts"
    if c: "phase_completed q k" for k
  proof (cases "k = ph")
    case True
    have "list_all task_completed ?ts"
    proof (cases "ph \<in> set (map fst (phases p))")
      case True
      with updatePhaseStatus_phases[OF h(4)] have
        "map_of (phases q) ph =
           Some \<lparr> completed = list_all task_completed ?ts,
                  completedDate = (if list_all task_completed ?ts then Some now_phase else None) \<rparr>"
        by (simp add: AList.update_conv')
      with c \<open>k = ph\<close> show ?thesis by (simp add: phase_completed_def)
    next
      case False
      with updatePhaseStatus_phases[OF h(4)] have "map_of (phases q) ph = None"
        by (simp add: map_of_eq_None_iff)
      with c \<open>k = ph\<close> show ?thesis by (simp add: phase_completed_def)
    qed
    with True look ne show ?thesis by simp
  next
    case False
    with h(4) have "map_of (phases q) k = map_of (phases p) k" by (simp add: updatePhaseStatus_other)
    with c have "phase_completed p k" by (simp add: phase_completed_def)
    with j obtain ts where
      "map_of allTasks k = Some ts" "ts \<noteq> []" "list_all task_completed ts"
      unfolding complete_phases_justified_iff by blast
    moreover have "map_of allTasks' k = map_of allTasks k"
      unfolding h(1,3) using False by (rule map_of_replace_other)
    ultimately show ?thesis by simp
  qed
  then show ?thesis unfolding complete_phases_justified_iff by blast
qed

lemma put_task_all_justified:
  "distinct (map fst allTasks) \<Longrightarrow> complete_phases_justified p allTasks \<Longrightarrow>
   complete_phases_justified (fst (put_task_all projectId p allTasks requests))
     (snd (put_task_all projectId p allTasks requests))"
proof (induction requests arbitrary: p allTasks)
  case Nil
  then show ?case by simp
next
  case (Cons request requests)
  obtain taskId cf nf now_task now_phase where
    request: "request = (taskId, cf, nf, now_task, now_phase)" by (cases request)
  show ?case
  proof (cases "put_task projectId taskId cf nf (Some p) allTasks now_task now_phase")
    case (Inl failure)
    with Cons request show ?thesis by simp
  next
    case (Inr result)
    obtain u q allTasks' where result: "result = (u, q, allTasks')" by (cases result)
    from Inr result have run:
      "put_task projectId taskId cf nf (Some p) allTasks now_task now_phase = Inr (u, q, allTasks')"
      by simp
    from Cons.prems(1) put_task_keys[OF run] have "distinct (map fst allTasks')" by simp
    moreover from run Cons.prems have "complete_phases_justified q allTasks'"
      by (rule put_task_justified)
    ultimately have
      "complete_phases_justified (fst (put_task_all projectId q allTasks' requests))
         (snd (put_task_all projectId q allTasks' requests))"
      by (rule Cons.IH)
    with run request show ?thesis by simp
  qed
qed

text \<open>
  Claim C2. After a task update that succeeds, the phase that holds the updated task has
  its flag set exactly when every task of its list is completed, and that list is not
  empty (it holds the updated task); the task mapping has each phase once and names only
  phases of the project. A phase whose task list is empty is not the one recomputed and
  keeps its record, and the update keeps the property that every completed phase has a
  task list that is not empty and all of whose tasks are completed. So, after any run of
  task updates on a new project, every completed phase has such a list, and no phase whose
  task list is empty is completed.
\<close>

theorem phase_complete_iff_all_tasks:
  "(put_task projectId taskId cf nf (Some p) allTasks now_task now_phase = Inr (u, q, allTasks')
      \<longrightarrow> distinct (map fst allTasks)
      \<longrightarrow> set (map fst allTasks) \<subseteq> set (map fst (phases p))
      \<longrightarrow> (\<exists>ph phaseTasks' s.
             map_of allTasks' ph = Some phaseTasks' \<and> u \<in> set phaseTasks'
           \<and> map_of (phases q) ph = Some s
           \<and> completed s = (\<forall>t \<in> set phaseTasks'. task_completed t)
           \<and> (\<forall>k. map_of allTasks' k = Some [] \<longrightarrow> map_of (phases q) k = map_of (phases p) k))
        \<and> (complete_phases_justified p allTasks \<longrightarrow>
             complete_phases_justified q allTasks'
           \<and> (\<forall>k. map_of allTasks' k = Some [] \<longrightarrow> \<not> phase_completed q k)))
   \<and> (distinct (map fst startTasks)
      \<longrightarrow> complete_phases_justified
            (fst (put_task_all projectId (new_Project uuid nm created) startTasks requests))
            (snd (put_task_all projectId (new_Project uuid nm created) startTasks requests))
        \<and> (\<forall>k. map_of (snd (put_task_all projectId (new_Project uuid nm created) startTasks requests)) k
                   = Some []
              \<longrightarrow> \<not> phase_completed
                     (fst (put_task_all projectId (new_Project uuid nm created) startTasks requests)) k))"
proof -
  have empty: "\<not> phase_completed r k"
    if "complete_phases_justified r tasks" "map_of tasks k = Some []" for r tasks k
    using that unfolding complete_phases_justified_iff by auto
  have step: "complete_phases_justified q allTasks'
              \<and> (\<forall>k. map_of allTasks' k = Some [] \<longrightarrow> \<not> phase_completed q k)"
    if "put_task projectId taskId cf nf (Some p) allTasks now_task now_phase = Inr (u, q, allTasks')"
      "distinct (map fst allTasks)" "complete_phases_justified p allTasks"
    using put_task_justified[OF that] empty by blast
  have run: "complete_phases_justified
               (fst (put_task_all projectId (new_Project uuid nm created) startTasks requests))
               (snd (put_task_all projectId (new_Project uuid nm created) startTasks requests))"
    if "distinct (map fst startTasks)"
    using that complete_phases_justified_new by (rule put_task_all_justified)
  have first:
    "(\<exists>ph phaseTasks' s.
        map_of allTasks' ph = Some phaseTasks' \<and> u \<in> set phaseTasks'
      \<and> map_of (phases q) ph = Some s
      \<and> completed s = (\<forall>t \<in> set phaseTasks'. task_completed t)
      \<and> (\<forall>k. map_of allTasks' k = Some [] \<longrightarrow> map_of (phases q) k = map_of (phases p) k))
     \<and> (complete_phases_justified p allTasks \<longrightarrow>
          complete_phases_justified q allTasks'
        \<and> (\<forall>k. map_of allTasks' k = Some [] \<longrightarrow> \<not> phase_completed q k))"
    if a: "put_task projectId taskId cf nf (Some p) allTasks now_task now_phase
             = Inr (u, q, allTasks')"
      and b: "distinct (map fst allTasks)"
      and c: "set (map fst allTasks) \<subseteq> set (map fst (phases p))"
  proof (rule conjI)
    show "\<exists>ph phaseTasks' s.
        map_of allTasks' ph = Some phaseTasks' \<and> u \<in> set phaseTasks'
      \<and> map_of (phases q) ph = Some s
      \<and> completed s = (\<forall>t \<in> set phaseTasks'. task_completed t)
      \<and> (\<forall>k. map_of allTasks' k = Some [] \<longrightarrow> map_of (phases q) k = map_of (phases p) k)"
      using a b c by (rule put_task_phase_flag)
    show "complete_phases_justified p allTasks \<longrightarrow>
          complete_phases_justified q allTasks'
        \<and> (\<forall>k. map_of allTasks' k = Some [] \<longrightarrow> \<not> phase_completed q k)"
    proof
      assume "complete_phases_justified p allTasks"
      with a b show "complete_phases_justified q allTasks'
        \<and> (\<forall>k. map_of allTasks' k = Some [] \<longrightarrow> \<not> phase_completed q k)"
        by (rule step)
    qed
  qed
  have second:
    "complete_phases_justified
       (fst (put_task_all projectId (new_Project uuid nm created) startTasks requests))
       (snd (put_task_all projectId (new_Project uuid nm created) startTasks requests))
     \<and> (\<forall>k. map_of (snd (put_task_all projectId (new_Project uuid nm created) startTasks requests)) k
                = Some []
           \<longrightarrow> \<not> phase_completed
                  (fst (put_task_all projectId (new_Project uuid nm created) startTasks requests)) k)"
    if d: "distinct (map fst startTasks)"
    using run[OF d] empty[OF run[OF d]] by simp
  show ?thesis
  proof (rule conjI)
    show "put_task projectId taskId cf nf (Some p) allTasks now_task now_phase = Inr (u, q, allTasks')
      \<longrightarrow> distinct (map fst allTasks)
      \<longrightarrow> set (map fst allTasks) \<subseteq> set (map fst (phases p))
      \<longrightarrow> (\<exists>ph phaseTasks' s.
             map_of allTasks' ph = Some phaseTasks' \<and> u \<in> set phaseTasks'
           \<and> map_of (phases q) ph = Some s
           \<and> completed s = (\<forall>t \<in> set phaseTasks'. task_completed t)
           \<and> (\<forall>k. map_of allTasks' k = Some [] \<longrightarrow> map_of (phases q) k = map_of (phases p) k))
        \<and> (complete_phases_justified p allTasks \<longrightarrow>
             complete_phases_justified q allTasks'
           \<and> (\<forall>k. map_of allTasks' k = Some [] \<longrightarrow> \<not> phase_completed q k))"
      by (intro impI) (rule first)
    show "distinct (map fst startTasks)
      \<longrightarrow> complete_phases_justified
            (fst (put_task_all projectId (new_Project uuid nm created) startTasks requests))
            (snd (put_task_all projectId (new_Project uuid nm created) startTasks requests))
        \<and> (\<forall>k. map_of (snd (put_task_all projectId (new_Project uuid nm created) startTasks requests)) k
                   = Some []
              \<longrightarrow> \<not> phase_completed
                     (fst (put_task_all projectId (new_Project uuid nm created) startTasks requests)) k)"
      by (intro impI) (rule second)
  qed
qed

text \<open>
  Completing the open design task \<^verbatim>\<open>t-3\<close> completes the design phase; the implementation
  phase, which has no tasks, stays open. On a new project, completing the two planning
  tasks completes the planning phase and leaves the phase without tasks open.
\<close>

theorem phase_complete_iff_all_tasks_witness:
  "(\<exists>u q allTasks'.
      put_task ''p-1'' ''t-3'' (JBool True) Absent (Some acme_planned) planned_tasks ''d3'' ''d4''
        = Inr (u, q, allTasks')
    \<and> distinct (map fst planned_tasks)
    \<and> set (map fst planned_tasks) \<subseteq> set (map fst (phases acme_planned))
    \<and> complete_phases_justified acme_planned planned_tasks
    \<and> (\<exists>phaseTasks'. map_of allTasks' ''design'' = Some phaseTasks' \<and> u \<in> set phaseTasks'
           \<and> list_all task_completed phaseTasks')
    \<and> map_of (phases q) ''design'' = Some \<lparr> completed = True, completedDate = Some ''d4'' \<rparr>
    \<and> map_of allTasks' ''implementation'' = Some []
    \<and> map_of (phases q) ''implementation'' = Some new_phase
    \<and> phase_completed q ''implementation'' = False
    \<and> complete_phases_justified q allTasks')
   \<and> distinct (map fst open_tasks)
   \<and> phase_completed (fst (put_task_all ''p-1'' acme open_tasks two_requests)) ''planning'' = True
   \<and> map_of (snd (put_task_all ''p-1'' acme open_tasks two_requests)) ''implementation'' = Some []
   \<and> phase_completed (fst (put_task_all ''p-1'' acme open_tasks two_requests)) ''implementation''
       = False
   \<and> complete_phases_justified (fst (put_task_all ''p-1'' acme open_tasks two_requests))
        (snd (put_task_all ''p-1'' acme open_tasks two_requests))"
proof -
  have "\<exists>u q allTasks'.
          put_task ''p-1'' ''t-3'' (JBool True) Absent (Some acme_planned) planned_tasks ''d3'' ''d4''
            = Inr (u, q, allTasks')
        \<and> map_of allTasks' ''design'' = Some [complete (new_Task ''t-2'' ''design''
              ''Security Architecture Review'' ''d'') None ''d2'', u]
        \<and> task_completed u
        \<and> map_of (phases q) ''design'' = Some \<lparr> completed = True, completedDate = Some ''d4'' \<rparr>
        \<and> map_of allTasks' ''implementation'' = Some []"
    by (simp add: put_task_def blank_def is_space_def is_boolean_def is_string_def
        acme_planned_def planned_tasks_def new_Task_def complete_def update_task_fields_def
        updatePhaseStatus_def get_property_def recompute_overallStatus_def
        allPhasesCompleted_def new_phase_def Let_def)
  then obtain u q allTasks' where
    run: "put_task ''p-1'' ''t-3'' (JBool True) Absent (Some acme_planned) planned_tasks ''d3'' ''d4''
            = Inr (u, q, allTasks')"
    and r: "map_of allTasks' ''design'' = Some [complete (new_Task ''t-2'' ''design''
              ''Security Architecture Review'' ''d'') None ''d2'', u]"
      "task_completed u"
      "map_of (phases q) ''design'' = Some \<lparr> completed = True, completedDate = Some ''d4'' \<rparr>"
      "map_of allTasks' ''implementation'' = Some []"
    by blast
  have d: "distinct (map fst planned_tasks)"
    and sub: "set (map fst planned_tasks) \<subseteq> set (map fst (phases acme_planned))"
    and j: "complete_phases_justified acme_planned planned_tasks"
    by (simp_all add: planned_tasks_def acme_planned_def complete_phases_justified_def
        phase_completed_def new_phase_def complete_def new_Task_def)
  have d0: "distinct (map fst open_tasks)" by (simp add: open_tasks_def)
  note T = phase_complete_iff_all_tasks
    [where projectId = "''p-1''" and taskId = "''t-3''" and cf = "JBool True" and nf = Absent
       and p = acme_planned and allTasks = planned_tasks and now_task = "''d3''"
       and now_phase = "''d4''" and u = u and q = q and allTasks' = allTasks'
       and startTasks = open_tasks and uuid = "''p-1''" and nm = "''Acme''"
       and created = "''2024-01-01T09:00:00.000Z''" and requests = two_requests,
     folded acme_def]
  note step = T[THEN conjunct1, THEN mp, OF run, THEN mp, OF d, THEN mp, OF sub]
  note kept = step[THEN conjunct2, THEN mp, OF j]
  from kept[THEN conjunct2] r(4) have e1: "phase_completed q ''implementation'' = False" by simp
  from step[THEN conjunct1] r(4)
  have "map_of (phases q) ''implementation'' = map_of (phases acme_planned) ''implementation''"
    by blast
  then have e2: "map_of (phases q) ''implementation'' = Some new_phase"
    by (simp add: acme_planned_def)
  note whole = T[THEN conjunct2, THEN mp, OF d0]
  have ev: "phase_completed (fst (put_task_all ''p-1'' acme open_tasks two_requests)) ''planning''
            \<and> map_of (snd (put_task_all ''p-1'' acme open_tasks two_requests)) ''implementation''
                = Some []"
    by code_simp
  with whole[THEN conjunct2]
  have e3: "phase_completed (fst (put_task_all ''p-1'' acme open_tasks two_requests))
              ''implementation'' = False"
    by simp
  from run d sub j r e1 e2 kept[THEN conjunct1] have first:
    "\<exists>u q allTasks'.
      put_task ''p-1'' ''t-3'' (JBool True) Absent (Some acme_planned) planned_tasks ''d3'' ''d4''
        = Inr (u, q, allTasks')
    \<and> distinct (map fst planned_tasks)
    \<and> set (map fst planned_tasks) \<subseteq> set (map fst (phases acme_planned))
    \<and> complete_phases_justified acme_planned planned_tasks
    \<and> (\<exists>phaseTasks'. map_of allTasks' ''design'' = Some phaseTasks' \<and> u \<in> set phaseTasks'
           \<and> list_all task_completed phaseTasks')
    \<and> map_of (phases q) ''design'' = Some \<lparr> completed = True, completedDate = Some ''d4'' \<rparr>
    \<and> map_of allTasks' ''implementation'' = Some []
    \<and> map_of (phases q) ''implementation'' = Some new_phase
    \<and> phase_completed q ''implementation'' = False
    \<and> complete_phases_justified q allTasks'"
    by (intro exI[of _ u] exI[of _ q] exI[of _ allTasks']) (simp add: complete_def)
  from first d0 ev e3 whole[THEN conjunct1] show ?thesis by simp
qed
text \<open>
  Claim C3. A task update that succeeds calls \<^verbatim>\<open>updatePhaseStatus\<close> for one phase only, a
  phase whose task list holds the task: the record of every other phase is the one from
  before, the project has the same phase names, and its \<^verbatim>\<open>id\<close>, \<^verbatim>\<open>name\<close> and
  \<^verbatim>\<open>createdDate\<close> are unchanged.
\<close>

theorem task_update_frame:
  assumes "put_task projectId taskId cf nf (Some p) allTasks now_task now_phase
             = Inr (u, q, allTasks')"
  shows "\<exists>ph phaseTasks.
           (ph, phaseTasks) \<in> set allTasks \<and> taskId \<in> set (map task_id phaseTasks)
         \<and> (\<forall>k. k \<noteq> ph \<longrightarrow> map_of (phases q) k = map_of (phases p) k)
         \<and> map fst (phases q) = map fst (phases p)
         \<and> project_id q = project_id p \<and> name q = name p \<and> createdDate q = createdDate p"
proof -
  from assms(1) obtain pre ph phaseTasks post i where
    h: "allTasks = pre @ (ph, phaseTasks) # post"
       "findIndex (\<lambda>t. task_id t = taskId) phaseTasks = Some i"
       "updatePhaseStatus p ph (list_all task_completed (phaseTasks[i := u])) now_phase = Inr q"
    by (rule put_task_found)
  from findIndex_Some[OF h(2)] have "taskId \<in> set (map task_id phaseTasks)"
    by (metis length_map nth_map nth_mem)
  moreover from h(1) have "(ph, phaseTasks) \<in> set allTasks" by simp
  ultimately show ?thesis
    using updatePhaseStatus_other[OF h(3)] updatePhaseStatus_keys[OF h(3)]
      updatePhaseStatus_frame(2-4)[OF h(3)]
    by blast
qed

text \<open>
  Completing the design task \<^verbatim>\<open>t-3\<close> leaves the planning record, completed at \<open>d1\<close>, and the
  three other records as they were.
\<close>

theorem task_update_frame_witness:
  "\<exists>u q allTasks'.
     put_task ''p-1'' ''t-3'' (JBool True) Absent (Some acme_planned) planned_tasks ''d3'' ''d4''
       = Inr (u, q, allTasks')
   \<and> map_of (phases q) ''planning'' = Some \<lparr> completed = True, completedDate = Some ''d1'' \<rparr>
   \<and> map_of (phases q) ''implementation'' = Some new_phase
   \<and> map_of (phases q) ''testing'' = Some new_phase
   \<and> map_of (phases q) ''deployment'' = Some new_phase
   \<and> map_of (phases q) ''design'' \<noteq> map_of (phases acme_planned) ''design''
   \<and> map fst (phases q) = phase_names
   \<and> project_id q = ''p-1'' \<and> name q = ''Acme'' \<and> createdDate q = ''2024-01-01T09:00:00.000Z''"
proof -
  have "\<exists>u q allTasks'.
          put_task ''p-1'' ''t-3'' (JBool True) Absent (Some acme_planned) planned_tasks ''d3'' ''d4''
            = Inr (u, q, allTasks')
        \<and> map_of (phases q) ''design'' \<noteq> map_of (phases acme_planned) ''design''"
    by (simp add: put_task_def blank_def is_space_def is_boolean_def is_string_def
        acme_planned_def planned_tasks_def new_Task_def complete_def update_task_fields_def
        updatePhaseStatus_def get_property_def recompute_overallStatus_def
        allPhasesCompleted_def new_phase_def Let_def)
  then obtain u q allTasks' where
    run: "put_task ''p-1'' ''t-3'' (JBool True) Absent (Some acme_planned) planned_tasks ''d3'' ''d4''
            = Inr (u, q, allTasks')"
    and changed: "map_of (phases q) ''design'' \<noteq> map_of (phases acme_planned) ''design''"
    by blast
  from task_update_frame[OF run] obtain ph phaseTasks where
    f: "(ph, phaseTasks) \<in> set planned_tasks" "''t-3'' \<in> set (map task_id phaseTasks)"
       "\<forall>k. k \<noteq> ph \<longrightarrow> map_of (phases q) k = map_of (phases acme_planned) k"
       "map fst (phases q) = map fst (phases acme_planned)"
       "project_id q = project_id acme_planned" "name q = name acme_planned"
       "createdDate q = createdDate acme_planned"
    by blast
  from f(1,2) have "ph = ''design''"
    by (auto simp: planned_tasks_def new_Task_def complete_def)
  with f(3) have "map_of (phases q) ''planning'' = map_of (phases acme_planned) ''planning''"
    "map_of (phases q) ''implementation'' = map_of (phases acme_planned) ''implementation''"
    "map_of (phases q) ''testing'' = map_of (phases acme_planned) ''testing''"
    "map_of (phases q) ''deployment'' = map_of (phases acme_planned) ''deployment''"
    by simp_all
  with run changed f(4-7) show ?thesis
    by (auto simp: acme_planned_def phase_names_def)
qed

text \<open>
  Claim C10. A task update that sends notes and no \<^verbatim>\<open>completed\<close> field stores the notes and
  leaves the task's flag and date as they were. The phase of the task is recomputed all
  the same: when all its tasks are completed, its record in the project becomes completed
  with the clock reading of this update as its date, whatever date it had.
\<close>

theorem notes_only_update:
  assumes "put_task projectId taskId Absent (JString n) (Some p) allTasks now_task now_phase
             = Inr (u, q, allTasks')"
  shows "\<exists>ph phaseTasks i.
           (ph, phaseTasks) \<in> set allTasks \<and> i < length phaseTasks
         \<and> task_id (phaseTasks ! i) = taskId
         \<and> task_completed u = task_completed (phaseTasks ! i)
         \<and> task_completedDate u = task_completedDate (phaseTasks ! i)
         \<and> task_notes u = n
         \<and> (list_all task_completed phaseTasks \<longrightarrow> map_of (phases p) ph \<noteq> None \<longrightarrow>
              map_of (phases q) ph = Some \<lparr> completed = True, completedDate = Some now_phase \<rparr>)"
proof -
  from assms(1) obtain pre ph phaseTasks post i where
    h: "allTasks = pre @ (ph, phaseTasks) # post"
       "findIndex (\<lambda>t. task_id t = taskId) phaseTasks = Some i"
       "u = update_task_fields (phaseTasks ! i)
              (case Absent of JBool b \<Rightarrow> Some b | _ \<Rightarrow> None)
              (case JString n of JString n \<Rightarrow> Some n | _ \<Rightarrow> None) now_task"
       "updatePhaseStatus p ph (list_all task_completed (phaseTasks[i := u])) now_phase = Inr q"
    by (rule put_task_found)
  from h(3) have u: "u = update_task_fields (phaseTasks ! i) None (Some n) now_task" by simp
  from findIndex_Some[OF h(2)] have i: "i < length phaseTasks" "task_id (phaseTasks ! i) = taskId"
    by simp_all
  have stamp: "map_of (phases q) ph = Some \<lparr> completed = True, completedDate = Some now_phase \<rparr>"
    if all: "list_all task_completed phaseTasks" and own: "map_of (phases p) ph \<noteq> None"
  proof -
    from all i(1) have "task_completed u" using u by (simp add: list_all_length)
    with all have "list_all task_completed (phaseTasks[i := u])"
      by (auto simp: list_all_iff dest: set_update_subset_insert[THEN subsetD])
    moreover from own have "ph \<in> set (map fst (phases p))"
      by (auto dest: map_of_Some_key)
    ultimately show ?thesis using updatePhaseStatus_phases[OF h(4)]
      by (simp add: AList.update_conv')
  qed
  from h(1) have "(ph, phaseTasks) \<in> set allTasks" by simp
  with i u stamp have
    "(ph, phaseTasks) \<in> set allTasks \<and> i < length phaseTasks
     \<and> task_id (phaseTasks ! i) = taskId
     \<and> task_completed u = task_completed (phaseTasks ! i)
     \<and> task_completedDate u = task_completedDate (phaseTasks ! i)
     \<and> task_notes u = n
     \<and> (list_all task_completed phaseTasks \<longrightarrow> map_of (phases p) ph \<noteq> None \<longrightarrow>
          map_of (phases q) ph = Some \<lparr> completed = True, completedDate = Some now_phase \<rparr>)"
    by simp
  then show ?thesis by blast
qed

text \<open>
  New notes for the planning task \<^verbatim>\<open>t-0\<close>, completed at \<open>d0\<close>: the task keeps its date, and
  the planning phase, completed at \<open>d1\<close>, is now dated \<open>d9\<close>.
\<close>

theorem notes_only_update_witness:
  "\<exists>u q allTasks'.
     put_task ''p-1'' ''t-0'' Absent (JString ''reviewed'') (Some acme_planned) planned_tasks
       ''d8'' ''d9'' = Inr (u, q, allTasks')
   \<and> task_completed u = True \<and> task_completedDate u = Some ''d0'' \<and> task_notes u = ''reviewed''
   \<and> map_of (phases acme_planned) ''planning''
        = Some \<lparr> completed = True, completedDate = Some ''d1'' \<rparr>
   \<and> map_of (phases q) ''planning'' = Some \<lparr> completed = True, completedDate = Some ''d9'' \<rparr>"
proof -
  have "\<exists>u q allTasks'.
          put_task ''p-1'' ''t-0'' Absent (JString ''reviewed'') (Some acme_planned) planned_tasks
            ''d8'' ''d9'' = Inr (u, q, allTasks')
        \<and> task_completed u = True \<and> task_completedDate u = Some ''d0''"
    by (simp add: put_task_def blank_def is_space_def is_boolean_def is_string_def
        acme_planned_def planned_tasks_def new_Task_def complete_def update_task_fields_def
        updatePhaseStatus_def get_property_def recompute_overallStatus_def
        allPhasesCompleted_def new_phase_def Let_def)
  then obtain u q allTasks' where
    run: "put_task ''p-1'' ''t-0'' Absent (JString ''reviewed'') (Some acme_planned) planned_tasks
            ''d8'' ''d9'' = Inr (u, q, allTasks')"
    and t: "task_completed u = True" "task_completedDate u = Some ''d0''"
    by blast
  from notes_only_update[OF run] obtain ph phaseTasks i where
    f: "(ph, phaseTasks) \<in> set planned_tasks" "i < length phaseTasks"
       "task_id (phaseTasks ! i) = ''t-0''" "task_notes u = ''reviewed''"
       "list_all task_completed phaseTasks \<longrightarrow> map_of (phases acme_planned) ph \<noteq> None \<longrightarrow>
          map_of (phases q) ph = Some \<lparr> completed = True, completedDate = Some ''d9'' \<rparr>"
    by blast
  from f(1-3) have ph: "ph = ''planning''"
    "phaseTasks = [complete (new_Task ''t-0'' ''planning'' ''Threat Modeling'' ''d'')
                     (Some ''stride'') ''d0'',
                   complete (new_Task ''t-1'' ''planning'' ''Security Requirements Gathering'' ''d'')
                     None ''d1'']"
    by (auto simp: planned_tasks_def new_Task_def complete_def nth_Cons split: nat.splits)
  have before: "map_of (phases acme_planned) ''planning''
                  = Some \<lparr> completed = True, completedDate = Some ''d1'' \<rparr>"
    by (simp add: acme_planned_def)
  from ph have "list_all task_completed phaseTasks" by (simp add: complete_def)
  with f(5) ph(1) before
  have "map_of (phases q) ''planning'' = Some \<lparr> completed = True, completedDate = Some ''d9'' \<rparr>"
    by simp
  with run t f(4) before show ?thesis by blast
qed

text \<open>
  Claim C6. A new project has no completed phase and no date. \<^verbatim>\<open>updatePhaseStatus\<close>, a run
  of such calls and the task update route each keep the property that every phase record
  has a date exactly when its flag is set; so it holds after any sequence of them on a
  new project. A call with \<^verbatim>\<open>completed\<close> false on a phase of the project leaves that phase
  with the flag cleared and no date, in that same call.
\<close>

theorem completedDate_iff_completed:
  "dates_consistent (new_Project uuid nm t0)
   \<and> (dates_consistent p \<longrightarrow> updatePhaseStatus p ph c now = Inr q \<longrightarrow> dates_consistent q)
   \<and> (dates_consistent p \<longrightarrow> updatePhaseStatus_all p calls = Inr qa \<longrightarrow> dates_consistent qa)
   \<and> (dates_consistent p \<longrightarrow>
        put_task projectId taskId cf nf (Some p) allTasks now_task now_phase
          = Inr (u, qb, allTasks') \<longrightarrow> dates_consistent qb)
   \<and> (map_of (phases p) ph = Some s \<longrightarrow>
        (\<exists>qc. updatePhaseStatus p ph False now = Inr qc
            \<and> map_of (phases qc) ph = Some \<lparr> completed = False, completedDate = None \<rparr>))"
proof -
  have "\<exists>qc. updatePhaseStatus p ph False now = Inr qc
           \<and> map_of (phases qc) ph = Some \<lparr> completed = False, completedDate = None \<rparr>"
    if "map_of (phases p) ph = Some s"
    using that
    by (simp add: updatePhaseStatus_own recompute_overallStatus_def AList.update_conv')
  moreover have "dates_consistent q" if "dates_consistent p" "updatePhaseStatus p ph c now = Inr q"
    using that by (rule dates_consistent_update)
  moreover have "dates_consistent qa" if "dates_consistent p" "updatePhaseStatus_all p calls = Inr qa"
    using that by (rule dates_consistent_all)
  moreover have "dates_consistent qb"
    if "dates_consistent p"
      "put_task projectId taskId cf nf (Some p) allTasks now_task now_phase = Inr (u, qb, allTasks')"
    using that by (rule put_task_dates_consistent)
  ultimately show ?thesis using dates_consistent_new[of uuid nm t0] by simp
qed

text \<open>
  The project with its planning phase completed at \<open>d1\<close>: reopening the phase clears the
  date, and completing a design task through the route keeps flags and dates in step.
\<close>

theorem completedDate_iff_completed_witness:
  "dates_consistent acme_planned
   \<and> map_of (phases acme_planned) ''planning''
       = Some \<lparr> completed = True, completedDate = Some ''d1'' \<rparr>
   \<and> (\<exists>q. updatePhaseStatus acme_planned ''planning'' False ''d2'' = Inr q
          \<and> dates_consistent q
          \<and> map_of (phases q) ''planning'' = Some \<lparr> completed = False, completedDate = None \<rparr>)
   \<and> (\<exists>q1. updatePhaseStatus_all acme_planned [(''planning'', False, ''d2''), (''design'', True, ''d3'')]
              = Inr q1 \<and> dates_consistent q1)
   \<and> (\<exists>u q2 allTasks'.
         put_task ''p-1'' ''t-3'' (JBool True) Absent (Some acme_planned) planned_tasks ''d3'' ''d4''
           = Inr (u, q2, allTasks') \<and> dates_consistent q2)"
proof -
  have c: "dates_consistent acme_planned"
    and b: "map_of (phases acme_planned) ''planning''
              = Some \<lparr> completed = True, completedDate = Some ''d1'' \<rparr>"
    by (simp_all add: dates_consistent_def acme_planned_def new_phase_def)
  have r1: "\<exists>q1. updatePhaseStatus_all acme_planned
                   [(''planning'', False, ''d2''), (''design'', True, ''d3'')] = Inr q1"
    by (simp add: acme_planned_def new_phase_def updatePhaseStatus_def get_property_def
        recompute_overallStatus_def allPhasesCompleted_def)
  have r2: "\<exists>u q2 allTasks'.
         put_task ''p-1'' ''t-3'' (JBool True) Absent (Some acme_planned) planned_tasks ''d3'' ''d4''
           = Inr (u, q2, allTasks')"
    by (simp add: put_task_def blank_def is_space_def is_boolean_def is_string_def
        acme_planned_def planned_tasks_def new_Task_def complete_def update_task_fields_def
        updatePhaseStatus_def get_property_def recompute_overallStatus_def
        allPhasesCompleted_def new_phase_def Let_def)
  from b completedDate_iff_completed
    [where p = acme_planned and ph = "''planning''" and now = "''d2''"
       and s = "\<lparr> completed = True, completedDate = Some ''d1'' \<rparr>",
     THEN conjunct2, THEN conjunct2, THEN conjunct2, THEN conjunct2]
  obtain q where q: "updatePhaseStatus acme_planned ''planning'' False ''d2'' = Inr q"
    "map_of (phases q) ''planning'' = Some \<lparr> completed = False, completedDate = None \<rparr>"
    by auto
  from c q(1) completedDate_iff_completed
    [where p = acme_planned and ph = "''planning''" and c = False and now = "''d2''" and q = q,
     THEN conjunct2, THEN conjunct1]
  have "dates_consistent q" by simp
  with q have p3: "\<exists>q. updatePhaseStatus acme_planned ''planning'' False ''d2'' = Inr q
          \<and> dates_consistent q
          \<and> map_of (phases q) ''planning'' = Some \<lparr> completed = False, completedDate = None \<rparr>"
    by auto
  from r1 obtain q1 where q1: "updatePhaseStatus_all acme_planned
                   [(''planning'', False, ''d2''), (''design'', True, ''d3'')] = Inr q1"
    by auto
  from c q1 completedDate_iff_completed
    [where p = acme_planned and qa = q1
       and calls = "[(''planning'', False, ''d2''), (''design'', True, ''d3'')]",
     THEN conjunct2, THEN conjunct2, THEN conjunct1]
  have "dates_consistent q1" by simp
  with q1 have p4: "\<exists>q1. updatePhaseStatus_all acme_planned
                   [(''planning'', False, ''d2''), (''design'', True, ''d3'')] = Inr q1
                \<and> dates_consistent q1"
    by auto
  from r2 obtain u q2 allTasks' where q2:
    "put_task ''p-1'' ''t-3'' (JBool True) Absent (Some acme_planned) planned_tasks ''d3'' ''d4''
       = Inr (u, q2, allTasks')"
    by auto
  from c q2 completedDate_iff_completed
    [where p = acme_planned and qb = q2 and u = u and allTasks' = allTasks'
       and projectId = "''p-1''" and taskId = "''t-3''" and cf = "JBool True" and nf = Absent
       and allTasks = planned_tasks and now_task = "''d3''" and now_phase = "''d4''",
     THEN conjunct2, THEN conjunct2, THEN conjunct2, THEN conjunct1]
  have "dates_consistent q2" by simp
  with q2 have p5: "\<exists>u q2 allTasks'.
         put_task ''p-1'' ''t-3'' (JBool True) Absent (Some acme_planned) planned_tasks ''d3'' ''d4''
           = Inr (u, q2, allTasks') \<and> dates_consistent q2"
    by auto
  from c b p3 p4 p5 show ?thesis by simp
qed

section \<open>The report\<close>

subsection \<open>The error of the two roundings\<close>

lemma scale_exp_le: "e0 \<le> 1074 \<Longrightarrow> scale_exp a b e0 \<le> 1074"
proof (induction a b e0 rule: scale_exp.induct)
  case (1 a b e)
  show ?case
  proof (cases "e < 1074 \<and> a * 2 ^ e < b * 2 ^ 52")
    case True
    then have "Suc e \<le> 1074" by simp
    with 1 True show ?thesis by (subst scale_exp.simps) simp
  next
    case False
    with 1 show ?thesis by (subst scale_exp.simps) simp
  qed
qed

lemma scale_exp_reached:
  "1074 \<le> scale_exp a b e0 \<or> b * 2 ^ 52 \<le> a * 2 ^ scale_exp a b e0"
proof (induction a b e0 rule: scale_exp.induct)
  case (1 a b e)
  show ?case
  proof (cases "e < 1074 \<and> a * 2 ^ e < b * 2 ^ 52")
    case True
    with 1 show ?thesis by (subst (1 2) scale_exp.simps) simp
  next
    case False
    then show ?thesis by (subst (1 2) scale_exp.simps) auto
  qed
qed

lemma round_half_even_bounds:
  assumes "0 < d"
  shows "2 * n - d \<le> 2 * d * round_half_even n d" and "2 * d * round_half_even n d \<le> 2 * n + d"
proof -
  define q r where "q = n div d" and "r = n mod d"
  have n: "n = d * q + r" and r: "0 \<le> r" "r < d"
    using assms by (simp_all add: q_def r_def)
  have "2 * (d * q + r) - d \<le> 2 * d * round_half_even n d
        \<and> 2 * d * round_half_even n d \<le> 2 * (d * q + r) + d"
    using r assms
    by (auto simp: round_half_even_def Let_def q_def[symmetric] r_def[symmetric] algebra_simps)
  with n show "2 * n - d \<le> 2 * d * round_half_even n d"
    and "2 * d * round_half_even n d \<le> 2 * n + d" by simp_all
qed


lemma nearest_double_error:
  assumes a: "0 < a" and b: "0 < b" and normal: "b * 2 ^ 52 \<le> a * 2 ^ 1074"
    and nd: "nearest_double a b = (m, e)"
  shows "e \<le> 1074" and "2 ^ 52 \<le> m"
    and "\<bar>real_of_int m / 2 ^ e - real_of_int a / real_of_int b\<bar>
           \<le> (real_of_int a / real_of_int b) / 2 ^ 53"
proof -
  from nd have e: "e = scale_exp a b 0" and m: "m = round_half_even (a * 2 ^ e) b"
    by (auto simp: nearest_double_def Let_def)
  show le: "e \<le> 1074" unfolding e by (rule scale_exp_le) simp
  have reach: "b * 2 ^ 52 \<le> a * 2 ^ e"
  proof (cases "1074 \<le> e")
    case True
    with le have "e = 1074" by simp
    with normal show ?thesis by simp
  next
    case False
    with scale_exp_reached[of a b 0] e show ?thesis by simp
  qed
  have lo: "2 * (a * 2 ^ e) - b \<le> 2 * b * m" and hi: "2 * b * m \<le> 2 * (a * 2 ^ e) + b"
    unfolding m by (rule round_half_even_bounds[OF b])+
  have "2 * b * (2 ^ 52 - 1) < 2 * (b * 2 ^ 52) - b" using b by (simp add: algebra_simps)
  also have "\<dots> \<le> 2 * (a * 2 ^ e) - b" using reach by simp
  also note lo
  finally have "2 * b * (2 ^ 52 - 1) < 2 * b * m" .
  with b have "2 ^ 52 - 1 < m" by (simp add: mult_less_cancel_left_pos)
  then show "2 ^ 52 \<le> m" by simp
  define A where "A = real_of_int a / real_of_int b"
  define P where "P = (2::real) ^ e"
  have P: "0 < P" by (simp add: P_def)
  have rb: "0 < real_of_int b" using b by simp
  have A: "real_of_int a = A * real_of_int b" using rb by (simp add: A_def)
  from lo have "real_of_int (2 * (a * 2 ^ e) - b) \<le> real_of_int (2 * b * m)"
    by (rule of_int_le_iff[THEN iffD2])
  then have lo': "2 * (A * real_of_int b * P) - real_of_int b \<le> 2 * real_of_int b * real_of_int m"
    by (simp add: A P_def)
  from hi have "real_of_int (2 * b * m) \<le> real_of_int (2 * (a * 2 ^ e) + b)"
    by (rule of_int_le_iff[THEN iffD2])
  then have hi': "2 * real_of_int b * real_of_int m \<le> 2 * (A * real_of_int b * P) + real_of_int b"
    by (simp add: A P_def)
  have "real_of_int b * (2 * (A * P) - 1) \<le> real_of_int b * (2 * real_of_int m)"
    using lo' by (simp add: algebra_simps)
  with rb have lo2: "2 * (A * P) - 1 \<le> 2 * real_of_int m" by (simp add: mult_le_cancel_left_pos)
  have "real_of_int b * (2 * real_of_int m) \<le> real_of_int b * (2 * (A * P) + 1)"
    using hi' by (simp add: algebra_simps)
  with rb have hi2: "2 * real_of_int m \<le> 2 * (A * P) + 1" by (simp add: mult_le_cancel_left_pos)
  from lo2 hi2 have mid: "\<bar>real_of_int m - A * P\<bar> \<le> 1 / 2" by linarith
  have "real_of_int m / P - A = (real_of_int m - A * P) / P" using P by (simp add: field_simps)
  then have "\<bar>real_of_int m / P - A\<bar> = \<bar>real_of_int m - A * P\<bar> / P" using P by simp
  also have "\<dots> \<le> (1 / 2) / P" by (rule divide_right_mono[OF mid]) (use P in simp)
  also have "\<dots> = 1 / (2 * P)" by simp
  finally have err: "\<bar>real_of_int m / P - A\<bar> \<le> 1 / (2 * P)" .
  from reach have "real_of_int (b * 2 ^ 52) \<le> real_of_int (a * 2 ^ e)"
    by (rule of_int_le_iff[THEN iffD2])
  then have "real_of_int b * 2 ^ 52 \<le> real_of_int b * (A * P)" by (simp add: A P_def algebra_simps)
  with rb have big: "2 ^ 52 \<le> A * P" by (simp add: mult_le_cancel_left_pos)
  have "1 / (2 * P) = 2 ^ 52 / (2 ^ 53 * P)" by simp
  also have "\<dots> \<le> (A * P) / (2 ^ 53 * P)" by (rule divide_right_mono[OF big]) (use P in simp)
  also have "\<dots> = A / 2 ^ 53" using P by simp
  finally have "1 / (2 * P) \<le> A / 2 ^ 53" .
  with err show "\<bar>real_of_int m / 2 ^ e - real_of_int a / real_of_int b\<bar>
           \<le> (real_of_int a / real_of_int b) / 2 ^ 53"
    by (simp add: A_def P_def)
qed


lemma Math_round_floor: "Math_round (m, e) = \<lfloor>real_of_int m / 2 ^ e + 1 / 2\<rfloor>"
proof -
  have "real_of_int m / 2 ^ e + 1 / 2 = real_of_int (2 * m + 2 ^ e) / real_of_int (2 ^ (e + 1))"
    by (simp add: field_simps)
  then show ?thesis by (simp only: Math_round_def prod.case floor_divide_of_int_eq)
qed

lemma percent_zero: "percent 0 t = 0"
  by (simp add: percent_def js_divide_def js_times_100_def nearest_double_def Let_def
      round_half_even_def Math_round_def)

lemma percent_close:
  assumes c: "0 < c" and ct: "c \<le> t" and t: "t \<le> 2 ^ 43"
  obtains y where "percent c t = \<lfloor>y + 1 / 2\<rfloor>"
    and "\<bar>y - 100 * real c / real t\<bar> < 1 / 2 ^ 44"
proof -
  obtain m e where d1: "nearest_double (int c) (int t) = (m, e)" by (cases "nearest_double (int c) (int t)")
  obtain m' e' where d2: "nearest_double (m * 100) (2 ^ e) = (m', e')"
    by (cases "nearest_double (m * 100) (2 ^ e)")
  from c ct have tpos: "0 < t" by simp
  have a1: "0 < int c" and b1: "0 < int t" using c tpos by simp_all
  have "int t * 2 ^ 52 \<le> 2 ^ 43 * 2 ^ 52" using t by simp
  also have "\<dots> \<le> (1::int) * 2 ^ 1074" by simp
  also have "\<dots> \<le> int c * 2 ^ 1074" using c by (intro mult_right_mono) simp_all
  finally have n1: "int t * 2 ^ 52 \<le> int c * 2 ^ 1074" .
  note r1 = nearest_double_error[OF a1 b1 n1 d1]
  have m52: "4503599627370496 \<le> m" using r1(2) by simp
  have a2: "0 < m * 100" using m52 by linarith
  have b2: "(0::int) < 2 ^ e" by simp
  have "(2::int) ^ e \<le> 2 ^ 1074" using r1(1) by (intro power_increasing) simp_all
  moreover have "4503599627370496 \<le> m * 100" using m52 by linarith
  then have "(2::int) ^ 52 \<le> m * 100" by simp
  ultimately have n2: "(2::int) ^ e * 2 ^ 52 \<le> m * 100 * 2 ^ 1074"
    by (simp add: mult_mono mult.commute)
  note r2 = nearest_double_error[OF a2 b2 n2 d2]
  define X0 where "X0 = real c / real t"
  define q where "q = real_of_int m / 2 ^ e"
  define y where "y = real_of_int m' / 2 ^ e'"
  have X0: "0 < X0" "X0 \<le> 1" using c ct tpos by (simp_all add: X0_def)
  define eps where "eps = (1::real) / 2 ^ 53"
  have eps: "0 \<le> eps" "eps \<le> 1" "300 * eps < 1 / 2 ^ 44" by (simp_all add: eps_def)
  from r1(3) have e1: "\<bar>q - X0\<bar> \<le> X0 * eps" by (simp add: q_def X0_def eps_def)
  have eq: "real_of_int (m * 100) / real_of_int (2 ^ e) = 100 * q" by (simp add: q_def)
  from r2(3) have "\<bar>y - 100 * q\<bar> \<le> (100 * q) / 2 ^ 53" unfolding y_def eq[symmetric] .
  then have e2: "\<bar>y - 100 * q\<bar> \<le> (100 * q) * eps" by (simp add: eps_def)
  have "X0 * eps \<le> 1 * eps" by (rule mult_right_mono) (use X0 eps in simp_all)
  with e1 have e1': "\<bar>q - X0\<bar> \<le> eps" by linarith
  with X0 eps have "q \<le> 2" by linarith
  then have "(100 * q) * eps \<le> (100 * 2) * eps" by (intro mult_right_mono) (use eps in simp_all)
  with e2 have e2': "\<bar>y - 100 * q\<bar> \<le> 200 * eps" by linarith
  from e1' e2' have "\<bar>y - 100 * X0\<bar> \<le> 300 * eps" by linarith
  also note eps(3)
  finally have close: "\<bar>y - 100 * real c / real t\<bar> < 1 / 2 ^ 44" by (simp add: X0_def)
  have "percent c t = Math_round (m', e')"
    using tpos d1 d2 by (simp add: percent_def js_divide_def js_times_100_def)
  also have "\<dots> = \<lfloor>y + 1 / 2\<rfloor>" unfolding y_def by (rule Math_round_floor)
  finally show thesis using close that by blast
qed


subsection \<open>The computed percentage against the rounded one\<close>

lemma spec_percentage_div:
  assumes "0 < t"
  shows "spec_percentage c t = int ((200 * c + t) div (2 * t))"
proof -
  have "(of_nat c / of_nat t * 100 + 1 / 2 :: rat) = of_nat (200 * c + t) / of_nat (2 * t)"
    using assms by (simp add: field_simps)
  then show ?thesis using assms
    by (simp only: spec_percentage_def floor_divide_of_nat_eq) simp
qed

lemma percent_round:
  assumes tpos: "0 < t" and ct: "c \<le> t" and t: "t \<le> 2 ^ 43"
  shows "\<not> halfway c t \<Longrightarrow> percent c t = spec_percentage c t"
    and "halfway c t \<Longrightarrow>
           percent c t = spec_percentage c t \<or> percent c t = spec_percentage c t - 1"
proof -
  define N D R r where "N = 200 * c + t" and "D = 2 * t" and "R = N div D" and "r = N mod D"
  have D: "0 < D" "D \<le> 2 ^ 44" using tpos t by (simp_all add: D_def)
  have N: "N = D * R + r" and r: "r < D" using D by (simp_all add: R_def r_def)
  have spec: "spec_percentage c t = int R"
    using tpos by (simp add: spec_percentage_div N_def D_def R_def)
  have half: "halfway c t \<longleftrightarrow> r = 0" by (simp add: halfway_def r_def N_def D_def)
  have rD: "0 < real D" using D by simp
  have "real D \<le> 2 ^ 44" using D(2) by (metis of_nat_le_iff of_nat_numeral of_nat_power)
  then have delta: "1 / 2 ^ 44 \<le> 1 / real D" using rD by (simp add: frac_le)
  have ND: "real N / real D = real R + real r / real D"
    using rD by (simp add: N field_simps)
  have X: "100 * real c / real t + 1 / 2 = real N / real D"
    using tpos by (simp add: N_def D_def field_simps)
  have both: "(\<not> halfway c t \<longrightarrow> percent c t = int R)
            \<and> (halfway c t \<longrightarrow> percent c t = int R \<or> percent c t = int R - 1)"
  proof (cases "c = 0")
    case True
    then have "N = t" "D = 2 * t" by (simp_all add: N_def D_def)
    with tpos have "R = 0" "r \<noteq> 0" by (simp_all add: R_def r_def)
    with True half show ?thesis by (simp add: percent_zero)
  next
    case False
    then have "0 < c" by simp
    from percent_close[OF this ct t] obtain y where
      y: "percent c t = \<lfloor>y + 1 / 2\<rfloor>" "\<bar>y - 100 * real c / real t\<bar> < 1 / 2 ^ 44"
      by blast
    define z where "z = y + 1 / 2"
    define dl where "dl = (1::real) / 2 ^ 44"
    from y(2) have y2: "\<bar>y - 100 * real c / real t\<bar> < dl" by (simp add: dl_def)
    have "z - real N / real D = y - 100 * real c / real t" unfolding z_def X[symmetric] by simp
    with y2 have "\<bar>z - real N / real D\<bar> < dl" by simp
    moreover from delta have "dl \<le> 1 / real D" by (simp add: dl_def)
    ultimately have "\<bar>z - real N / real D\<bar> < 1 / real D" by linarith
    with ND have z: "\<bar>z - (real R + real r / real D)\<bar> < 1 / real D" by simp
    show ?thesis
    proof (cases "r = 0")
      case True
      have "1 / real D \<le> 1" using D(1) by simp
      with z True have zz: "real R - 1 < z" "z < real R + 1" by simp_all
      have "\<lfloor>z\<rfloor> = int R \<or> \<lfloor>z\<rfloor> = int R - 1"
      proof (cases "real R \<le> z")
        case True
        with zz have "\<lfloor>z\<rfloor> = int R" by (simp add: floor_eq_iff)
        then show ?thesis ..
      next
        case False
        with zz have "\<lfloor>z\<rfloor> = int R - 1" by (simp add: floor_eq_iff)
        then show ?thesis ..
      qed
      with True half y(1) show ?thesis by (simp add: z_def)
    next
      case False
      then have "1 \<le> real r" by simp
      then have lo: "1 / real D \<le> real r / real D" using rD by (simp add: divide_right_mono)
      from r have "r + 1 \<le> D" by simp
      then have "real (r + 1) \<le> real D" by (rule of_nat_le_iff[THEN iffD2])
      then have "real r + 1 \<le> real D" by simp
      then have "(real r + 1) / real D \<le> real D / real D" using rD by (intro divide_right_mono) simp_all
      then have hi: "real r / real D + 1 / real D \<le> 1" using rD by (simp add: add_divide_distrib)
      from z lo hi have "real R \<le> z" "z < real R + 1" by linarith+
      then have "\<lfloor>z\<rfloor> = int R" by (simp add: floor_eq_iff)
      with False half y(1) show ?thesis by (simp add: z_def)
    qed
  qed
  from both spec show "\<not> halfway c t \<Longrightarrow> percent c t = spec_percentage c t"
    and "halfway c t \<Longrightarrow>
           percent c t = spec_percentage c t \<or> percent c t = spec_percentage c t - 1"
    by simp_all
qed


subsection \<open>The statistics\<close>

lemma report_loop_fold:
  "report_loop tasks phaseStats totalTasks completedTasks =
     (fold (\<lambda>entry. set_property (fst entry)
              \<lparr> total = length (snd entry),
                stat_completed = length (filter task_completed (snd entry)),
                percentage = percent (length (filter task_completed (snd entry)))
                               (length (snd entry)) \<rparr>) tasks phaseStats,
      totalTasks + count_total tasks, completedTasks + count_completed tasks)"
  by (induction tasks arbitrary: phaseStats totalTasks completedTasks)
    (auto simp: Let_def count_total_def count_completed_def)

lemma set_property_cases:
  "set_property ''__proto__'' v obj = obj"
  "k \<noteq> ''__proto__'' \<Longrightarrow> set_property k v obj = AList.update k v obj"
  by (simp_all add: set_property_def)

lemma map_of_fold_set_other:
  "k \<notin> set (map fst xs) \<Longrightarrow>
   map_of (fold (\<lambda>entry. set_property (fst entry) (f entry)) xs acc) k = map_of acc k"
  by (induction xs arbitrary: acc) (auto simp: set_property_def AList.update_conv')

lemma map_of_fold_set_proto:
  "map_of (fold (\<lambda>entry. set_property (fst entry) (f entry)) xs acc) ''__proto__''
     = map_of acc ''__proto__''"
  by (induction xs arbitrary: acc) (auto simp: set_property_def AList.update_conv')

lemma map_of_fold_set:
  "distinct (map fst xs) \<Longrightarrow> entry \<in> set xs \<Longrightarrow> fst entry \<noteq> ''__proto__'' \<Longrightarrow>
   map_of (fold (\<lambda>entry. set_property (fst entry) (f entry)) xs acc) (fst entry) = Some (f entry)"
proof (induction xs arbitrary: acc)
  case Nil
  then show ?case by simp
next
  case (Cons x xs)
  show ?case
  proof (cases "entry = x")
    case True
    with Cons.prems(1) have "fst entry \<notin> set (map fst xs)" by simp
    with True Cons.prems(3) show ?thesis
      by (simp add: map_of_fold_set_other set_property_cases AList.update_conv')
  next
    case False
    with Cons show ?thesis by simp
  qed
qed

lemma keys_fold_set:
  "distinct (map fst xs) \<Longrightarrow> set (map fst xs) \<inter> set (map fst acc) = {} \<Longrightarrow>
   map fst (fold (\<lambda>entry. set_property (fst entry) (f entry)) xs acc)
     = map fst acc @ filter (\<lambda>k. k \<noteq> ''__proto__'') (map fst xs)"
proof (induction xs arbitrary: acc)
  case Nil
  then show ?case by simp
next
  case (Cons x xs)
  show ?case
  proof (cases "fst x = ''__proto__''")
    case True
    with Cons show ?thesis by (simp add: set_property_cases)
  next
    case False
    from Cons.prems(2) have new: "fst x \<notin> set (map fst acc)" by auto
    then have keys: "map fst (AList.update (fst x) (f x) acc) = map fst acc @ [fst x]"
      by (simp add: AList.update_keys)
    have "set (map fst xs) \<inter> set (map fst (AList.update (fst x) (f x) acc)) = {}"
      unfolding keys using Cons.prems by auto
    with Cons.prems(1) have
      "map fst (fold (\<lambda>entry. set_property (fst entry) (f entry)) xs
                  (AList.update (fst x) (f x) acc))
       = map fst (AList.update (fst x) (f x) acc) @ filter (\<lambda>k. k \<noteq> ''__proto__'') (map fst xs)"
      by (intro Cons.IH) simp_all
    with False keys show ?thesis by (simp add: set_property_cases)
  qed
qed

lemma count_completed_le: "count_completed tasks \<le> count_total tasks"
  unfolding count_completed_def count_total_def
  by (induction tasks) (auto intro: add_mono)

lemma length_le_count_total: "entry \<in> set tasks \<Longrightarrow> length (snd entry) \<le> count_total tasks"
  unfolding count_total_def by (induction tasks) auto

lemma percent_rounded:
  assumes "c \<le> t" and "t \<le> 2 ^ 43"
  shows "rounded_percentage (percent c t) c t"
proof (cases "t = 0")
  case True
  then show ?thesis by (simp add: rounded_percentage_def percent_def)
next
  case False
  then have "0 < t" by simp
  from percent_round[OF this assms] False show ?thesis
    by (auto simp: rounded_percentage_def)
qed

text \<open>23 of 40 is 57.5 per cent; the product of the two doubles lies below it.\<close>

lemma percent_23_40: "percent 23 40 = 57"
  by code_simp

lemma forty_tasks_counts:
  "forty_tasks = [(''planning'', snd (hd forty_tasks))]
   \<and> length (snd (hd forty_tasks)) = 40
   \<and> length (filter task_completed (snd (hd forty_tasks))) = 23"
  by code_simp

text \<open>
  Claim C4, as it is stated, fails: for a phase of 40 tasks with 23 completed the report
  gives 57 per cent, for the phase and overall, where 57.5 rounded half up is 58.
\<close>

theorem report_percentage_counterexample:
  "map_of (fst (report_stats forty_tasks)) ''planning''
     = Some \<lparr> total = 40, stat_completed = 23, percentage = 57 \<rparr>
   \<and> snd (report_stats forty_tasks) = 57
   \<and> spec_percentage 23 40 = 58"
proof -
  from forty_tasks_counts obtain ts where
    ts: "forty_tasks = [(''planning'', ts)]" "length ts = 40"
      "length (filter task_completed ts) = 23"
    by blast
  have "report_stats [(''planning'', ts)]
          = ([(''planning'', \<lparr> total = 40, stat_completed = 23, percentage = percent 23 40 \<rparr>)],
             percent 23 40)"
    using ts(2,3) by (simp add: report_stats_def Let_def set_property_def)
  then have "report_stats forty_tasks
          = ([(''planning'', \<lparr> total = 40, stat_completed = 23, percentage = 57 \<rparr>)], 57)"
    unfolding ts(1) percent_23_40 .
  moreover have "spec_percentage 23 40 = 58" by (simp add: spec_percentage_div)
  ultimately show ?thesis by simp
qed

text \<open>
  Claim C4, amended. Take a task mapping with each phase once and at most \<open>2\<^sup>4\<^sup>3\<close> tasks. The
  overall score is 0 when there is no task and otherwise \<^verbatim>\<open>Math.round\<close> of the double
  \<^verbatim>\<open>(completed / total) * 100\<close> over all tasks. It is the percentage rounded half up, except
  that a percentage lying exactly halfway between two integers may also come out as the
  lower one. The entries of \<^verbatim>\<open>phaseStats\<close> are those of the phases of the mapping, in their
  order, without a phase stored under the name \<^verbatim>\<open>__proto__\<close>, for which no entry is made.
  The entry of a phase holds its number of tasks, its number of completed tasks and a
  percentage that is computed from these two and rounded in the same way.
\<close>

theorem report_percentage_rounding:
  assumes "distinct (map fst tasks)" and "count_total tasks \<le> 2 ^ 43"
  shows "snd (report_stats tasks)
           = (if 0 < count_total tasks
              then Math_round (js_times_100 (js_divide (count_completed tasks) (count_total tasks)))
              else 0)
       \<and> rounded_percentage (snd (report_stats tasks)) (count_completed tasks) (count_total tasks)
       \<and> map fst (fst (report_stats tasks)) = filter (\<lambda>k. k \<noteq> ''__proto__'') (map fst tasks)
       \<and> (\<forall>entry \<in> set tasks. fst entry \<noteq> ''__proto__'' \<longrightarrow>
            (\<exists>st. map_of (fst (report_stats tasks)) (fst entry) = Some st
               \<and> total st = length (snd entry)
               \<and> stat_completed st = length (filter task_completed (snd entry))
               \<and> percentage st
                    = (if 0 < total st
                       then Math_round (js_times_100 (js_divide (stat_completed st) (total st)))
                       else 0)
               \<and> rounded_percentage (percentage st) (stat_completed st) (total st)))"
proof (intro conjI ballI impI)
  show "snd (report_stats tasks)
           = (if 0 < count_total tasks
              then Math_round (js_times_100 (js_divide (count_completed tasks) (count_total tasks)))
              else 0)"
    by (simp add: report_stats_def report_loop_fold percent_def)
  show "rounded_percentage (snd (report_stats tasks)) (count_completed tasks) (count_total tasks)"
    using percent_rounded[OF count_completed_le assms(2)]
    by (simp add: report_stats_def report_loop_fold)
  show "map fst (fst (report_stats tasks)) = filter (\<lambda>k. k \<noteq> ''__proto__'') (map fst tasks)"
    using keys_fold_set[OF assms(1), of "[]"]
    by (simp add: report_stats_def report_loop_fold)
next
  fix entry assume entry: "entry \<in> set tasks" and name: "fst entry \<noteq> ''__proto__''"
  let ?c = "length (filter task_completed (snd entry))" and ?t = "length (snd entry)"
  let ?st = "\<lparr> total = ?t, stat_completed = ?c, percentage = percent ?c ?t \<rparr>"
  have "?t \<le> 2 ^ 43" using length_le_count_total[OF entry] assms(2) by (rule order_trans)
  then have "rounded_percentage (percent ?c ?t) ?c ?t" by (intro percent_rounded) simp_all
  moreover have "map_of (fst (report_stats tasks)) (fst entry) = Some ?st"
    using map_of_fold_set[OF assms(1) entry name]
    by (simp add: report_stats_def report_loop_fold)
  moreover have "percent ?c ?t
                   = (if 0 < ?t then Math_round (js_times_100 (js_divide ?c ?t)) else 0)"
    by (simp add: percent_def)
  ultimately show "\<exists>st. map_of (fst (report_stats tasks)) (fst entry) = Some st
               \<and> total st = length (snd entry)
               \<and> stat_completed st = length (filter task_completed (snd entry))
               \<and> percentage st
                    = (if 0 < total st
                       then Math_round (js_times_100 (js_divide (stat_completed st) (total st)))
                       else 0)
               \<and> rounded_percentage (percentage st) (stat_completed st) (total st)"
    by simp
qed

lemma half_done_counts:
  "distinct (map fst half_done) \<and> count_total half_done = 10 \<and> count_completed half_done = 5"
  by code_simp

lemma eight_tasks_counts:
  "distinct (map fst eight_tasks) \<and> count_total eight_tasks = 8 \<and> count_completed eight_tasks = 1"
  by code_simp

lemma one_of_eight: "Math_round (js_times_100 (js_divide 1 8)) = 13"
  by code_simp

text \<open>
  The default tasks with 5 of 10 completed score 50, a project without tasks scores 0, and
  1 of 8, which is 12.5 per cent, scores 13.
\<close>

theorem report_percentage_rounding_witness:
  "distinct (map fst half_done) \<and> count_total half_done \<le> 2 ^ 43
   \<and> count_total half_done = 10 \<and> count_completed half_done = 5
   \<and> snd (report_stats half_done) = 50
   \<and> map fst (fst (report_stats half_done)) = phase_names
   \<and> snd (report_stats []) = 0
   \<and> distinct (map fst eight_tasks) \<and> count_total eight_tasks \<le> 2 ^ 43
   \<and> snd (report_stats eight_tasks) = 13"
proof -
  have h: "distinct (map fst half_done)" "count_total half_done \<le> 2 ^ 43"
    "count_total half_done = 10" "count_completed half_done = 5"
    using half_done_counts by simp_all
  have e: "distinct (map fst eight_tasks)" "count_total eight_tasks \<le> 2 ^ 43"
    "count_total eight_tasks = 8" "count_completed eight_tasks = 1"
    using eight_tasks_counts by simp_all
  have "spec_percentage 5 10 = 50" "\<not> halfway 5 10"
    by (simp_all add: spec_percentage_div halfway_def)
  with report_percentage_rounding[OF h(1,2), THEN conjunct2, THEN conjunct1] h(3,4)
  have a: "snd (report_stats half_done) = 50" by (simp add: rounded_percentage_def)
  have "map fst half_done = phase_names" by code_simp
  with report_percentage_rounding[OF h(1,2), THEN conjunct2, THEN conjunct2, THEN conjunct1]
  have b: "map fst (fst (report_stats half_done)) = phase_names" by (simp add: phase_names_def)
  from report_percentage_rounding[of "[]", THEN conjunct2, THEN conjunct1]
  have c: "snd (report_stats []) = 0" by (simp add: rounded_percentage_def count_total_def)
  from report_percentage_rounding[OF e(1,2), THEN conjunct1] e(3,4) one_of_eight
  have d: "snd (report_stats eight_tasks) = 13" by simp
  from h e a b c d show ?thesis by simp
qed

end
